theory Spec2Isabelle
  imports Complex_Main "HOL-Library.AList" "HOL-Library.Multiset"
begin

section \<open>CaDaBot: the cake-day bot of \<^verbatim>\<open>cadabot.py\<close>\<close>

text \<open>
  The development embeds the functions of \<^verbatim>\<open>cadabot.py\<close>:
  \<^verbatim>\<open>submissions_and_comments\<close>, \<^verbatim>\<open>get_cakeday_status\<close>, \<^verbatim>\<open>remove_old_cakedays\<close>,
  \<^verbatim>\<open>post_if_cakeday\<close>, \<^verbatim>\<open>post_if_response_to_cakeday_wish\<close>, the body of the loop of
  \<^verbatim>\<open>run\<close> and \<^verbatim>\<open>run_with_exception_handling\<close>.

  Conventions.
  \<^item> A Python exception is a value of \<open>error\<close>; a function that may raise returns
    \<open>error + 'a\<close> together with the state reached when it stopped, since the store
    is written through at once (\<^verbatim>\<open>autocommit=True\<close>).
  \<^item> The store \<^verbatim>\<open>db\<close> (a \<^verbatim>\<open>SqliteDict\<close>) is an association list in row order, read with
    \<open>map_of\<close>, written with \<open>AList.update\<close>, deleted from with \<open>AList.delete\<close>.
  \<^item> The clock (\<^verbatim>\<open>datetime.datetime.utcnow()\<close>) is an argument \<open>tnow\<close>.
  \<^item> Timestamps (\<^verbatim>\<open>created_utc\<close>) are whole seconds since the epoch, as integers.
  \<^item> The calls into the Reddit client (\<^verbatim>\<open>post.reply\<close>, \<^verbatim>\<open>post.parent\<close>,
    \<^verbatim>\<open>post.refresh\<close>), the sentiment analyser, the ordinal formatter and the random
    generator are taken to return: what they return is data of the post or a field
    of \<open>env\<close>. A reply that was sent is appended to \<open>sent\<close>.
  \<^item> A \<open>string\<close> is the list of the UTF-8 bytes of a Python string. \<^verbatim>\<open>str.lower()\<close>
    follows the Unicode tables of the interpreter and is the field \<open>str_lower\<close> of
    \<open>env\<close>.
\<close>

subsection \<open>Exceptions\<close>

datatype error =
    AssertionError
  | AttributeError
  | KeyError
  | ValueError string
  | RecursionError
  | KeyboardInterrupt
  | OtherException string

subsection \<open>Calendar arithmetic of \<^verbatim>\<open>datetime\<close>\<close>

text \<open>
  A \<^verbatim>\<open>datetime\<close> value, without its microseconds, which the program never reads.
\<close>

record datetime =
  year :: int
  month :: int
  day :: int
  hour :: int
  minute :: int
  second :: int

text \<open>\<^verbatim>\<open>dt.date()\<close>, compared as the triple of its fields.\<close>

definition date :: "datetime \<Rightarrow> int \<times> int \<times> int" where
  "date dt = (year dt, month dt, day dt)"

definition is_leap :: "int \<Rightarrow> bool" where
  "is_leap y = (y mod 4 = 0 \<and> (y mod 100 \<noteq> 0 \<or> y mod 400 = 0))"

definition days_in_month :: "int \<Rightarrow> int \<Rightarrow> int" where
  "days_in_month y m =
     (if m = 2 then (if is_leap y then 29 else 28)
      else if m = 4 \<or> m = 6 \<or> m = 9 \<or> m = 11 then 30
      else 31)"

text \<open>The number of days of a common year before the first of month \<open>m\<close>.\<close>

definition days_before_month :: "int \<Rightarrow> int" where
  "days_before_month m =
     (if m = 1 then 0 else if m = 2 then 31 else if m = 3 then 59
      else if m = 4 then 90 else if m = 5 then 120 else if m = 6 then 151
      else if m = 7 then 181 else if m = 8 then 212 else if m = 9 then 243
      else if m = 10 then 273 else if m = 11 then 304 else 334)"

text \<open>
  The proleptic Gregorian ordinal (day 1 is 0001-01-01) to year, month and day, step
  by step as \<^verbatim>\<open>_ord2ymd\<close> of the standard library's \<^verbatim>\<open>datetime.py\<close> computes it:
  400-year, 100-year and 4-year cycles, then a first guess at the month corrected
  downwards.
\<close>

definition ord2ymd :: "int \<Rightarrow> int \<times> int \<times> int" where
  "ord2ymd ordinal =
     (let n0 = ordinal - 1;
          n400 = n0 div 146097; n1' = n0 mod 146097;
          n100 = n1' div 36524; n2' = n1' mod 36524;
          n4 = n2' div 1461; n3' = n2' mod 1461;
          n1 = n3' div 365; n = n3' mod 365;
          y = n400 * 400 + 1 + n100 * 100 + n4 * 4 + n1
      in if n1 = 4 \<or> n100 = 4 then (y - 1, 12, 31)
         else
           let leapyear = (n1 = 3 \<and> (n4 \<noteq> 24 \<or> n100 = 3));
               m = (n + 50) div 32;
               preceding = days_before_month m + (if m > 2 \<and> leapyear then 1 else 0)
           in if preceding > n
              then let m' = m - 1;
                       preceding' = preceding
                         - (if m' = 2 \<and> leapyear then 29 else days_in_month 1 m')
                   in (y, m', n - preceding' + 1)
              else (y, m, n - preceding + 1))"

text \<open>
  \<^verbatim>\<open>datetime.datetime.utcfromtimestamp(t)\<close> for a whole number of seconds. Outside the
  years 1 to 9999 it raises (a \<^verbatim>\<open>ValueError\<close>, or an \<^verbatim>\<open>OverflowError\<close> or \<^verbatim>\<open>OSError\<close>
  further out, which the model does not tell apart).
\<close>

definition utcfromtimestamp :: "int \<Rightarrow> error + datetime" where
  "utcfromtimestamp t =
     (if t < - 62135596800 \<or> 253402300799 < t
      then Inl (ValueError ''year is out of range'')
      else
        let days = t div 86400; s = t mod 86400
        in case ord2ymd (days + 719163) of
             (y, m, d) \<Rightarrow>
               Inr \<lparr>year = y, month = m, day = d,
                    hour = s div 3600, minute = s mod 3600 div 60, second = s mod 60\<rparr>)"

text \<open>
  \<^verbatim>\<open>dt.replace(year=y)\<close>: the constructor checks the fields again, so a year outside
  1 to 9999, or a day the month does not have in year \<open>y\<close> (29 February in a common
  year), raises \<^verbatim>\<open>ValueError\<close>.
\<close>

definition replace_year :: "datetime \<Rightarrow> int \<Rightarrow> error + datetime" where
  "replace_year dt y =
     (if y < 1 \<or> 9999 < y then Inl (ValueError ''year is out of range'')
      else if month dt < 1 \<or> 12 < month dt then Inl (ValueError ''month must be in 1..12'')
      else if day dt < 1 \<or> days_in_month y (month dt) < day dt
        then Inl (ValueError ''day is out of range for month'')
      else Inr (dt\<lparr>year := y\<rparr>))"

text \<open>The values a \<^verbatim>\<open>datetime\<close> object can hold: what its constructor accepts.\<close>

definition valid_datetime :: "datetime \<Rightarrow> bool" where
  "valid_datetime dt =
     (1 \<le> year dt \<and> year dt \<le> 9999 \<and> 1 \<le> month dt \<and> month dt \<le> 12
      \<and> 1 \<le> day dt \<and> day dt \<le> days_in_month (year dt) (month dt)
      \<and> 0 \<le> hour dt \<and> hour dt \<le> 23 \<and> 0 \<le> minute dt \<and> minute dt \<le> 59
      \<and> 0 \<le> second dt \<and> second dt \<le> 59)"

subsection \<open>The record store\<close>

text \<open>
  A Reddit account as the client returns it. \<open>is_suspended\<close> is \<open>None\<close> when the
  object has no such attribute.
\<close>

record redditor =
  name :: string
  created_utc :: int
  is_suspended :: "bool option"

text \<open>
  The stored value \<^verbatim>\<open>{"created_utc": ..., "years_wished_cakeday": [...]}\<close>.
\<close>

record status =
  s_created_utc :: int
  years_wished_cakeday :: "int list"

type_synonym store = "(string \<times> status) list"

text \<open>
  \<^verbatim>\<open>get_cakeday_status(redditor)\<close>. A stored value is a dictionary with two keys, so
  \<^verbatim>\<open>if user:\<close> holds exactly when the key is present. \<^verbatim>\<open>redditor.name\<close> on \<^verbatim>\<open>None\<close>
  (a deleted author) raises \<^verbatim>\<open>AttributeError\<close>. The function returns what it reads
  back from the store after writing.
\<close>

definition get_cakeday_status :: "redditor option \<Rightarrow> store \<Rightarrow> (error + status) \<times> store" where
  "get_cakeday_status redditor db =
     (case redditor of
        None \<Rightarrow> (Inl AttributeError, db)
      | Some r \<Rightarrow>
          (case map_of db (name r) of
             Some user \<Rightarrow>
               if created_utc r = s_created_utc user then (Inr user, db)
               else (Inl AssertionError, db)
           | None \<Rightarrow>
               let db' = AList.update (name r)
                           \<lparr>s_created_utc = created_utc r, years_wished_cakeday = []\<rparr> db
               in (case map_of db' (name r) of
                     Some user \<Rightarrow> (Inr user, db')
                   | None \<Rightarrow> (Inl KeyError, db'))))"

subsection \<open>Posts, collaborators and the state\<close>

text \<open>
  A submission or a comment as the client delivers it. \<open>author\<close> is \<open>None\<close> for deleted
  content. A comment carries its text, what \<^verbatim>\<open>post.parent()\<close> returns and, in \<open>replies\<close>,
  what \<^verbatim>\<open>post.replies\<close> holds after \<^verbatim>\<open>post.refresh()\<close>.
\<close>

datatype post =
    Submission (author: "redditor option") (post_created_utc: int)
  | Comment (author: "redditor option") (post_created_utc: int)
      (body: string) (parent: post) (replies: "post list")

text \<open>
  \<^verbatim>\<open>isinstance(post, praw.models.Comment)\<close>.
\<close>

fun is_comment :: "post \<Rightarrow> bool" where
  "is_comment (Submission _ _) = False"
| "is_comment (Comment _ _ _ _ _) = True"

text \<open>
  The scores of \<^verbatim>\<open>sia.polarity_scores\<close>. The analyser rounds each score to three
  decimals, so a score is modelled by that decimal as a rational, and the literal
  \<^verbatim>\<open>0.4\<close> by \<open>4 / 10\<close>.
\<close>

record polarity =
  pos :: rat
  neg :: rat

text \<open>
  The collaborators: the sentiment analyser \<^verbatim>\<open>sia\<close>, the ordinal formatter
  \<^verbatim>\<open>p.ordinal\<close> of the \<^verbatim>\<open>inflect\<close> engine, the index that \<^verbatim>\<open>random.choice\<close> draws, and
  \<^verbatim>\<open>str.lower\<close>, which maps every cased character of Unicode (the Kelvin sign to \<^verbatim>\<open>k\<close>,
  for one) and is not written out here.
\<close>

record env =
  sia :: "string \<Rightarrow> polarity"
  ordinal :: "int \<Rightarrow> string"
  rnd :: nat
  str_lower :: "string \<Rightarrow> string"

text \<open>
  The state the functions act on: the store, the replies posted so far (the post
  replied to and the text), and the lengths in seconds of the sleeps taken.
\<close>

record world =
  db :: store
  sent :: "(post \<times> string) list"
  slept :: "nat list"

text \<open>\<^verbatim>\<open>random.choice(options)\<close> on a non-empty list, with the drawn index \<open>rnd\<close>.\<close>

definition random_choice :: "env \<Rightarrow> 'a list \<Rightarrow> 'a" where
  "random_choice e options = options ! (rnd e mod length options)"

subsection \<open>Strings\<close>

text \<open>
  \<^verbatim>\<open>sub in s\<close> for strings: \<open>sub\<close> occurs in \<open>s\<close> as a contiguous run. On the UTF-8
  bytes, for a \<open>sub\<close> of ASCII characters, a run of bytes is a run of characters.
\<close>

fun contains :: "string \<Rightarrow> string \<Rightarrow> bool" where
  "contains sub [] = (sub = [])"
| "contains sub (c # cs) = (take (length sub) (c # cs) = sub \<or> contains sub cs)"

text \<open>
  The emojis of \<^verbatim>\<open>choose_cakeday_wish\<close> and of the acknowledgments, as their UTF-8 bytes.
\<close>

definition emoji_smile :: string where
  "emoji_smile = [CHR 0xF0, CHR 0x9F, CHR 0x98, CHR 0x84]"

definition emoji_smiley :: string where
  "emoji_smiley = [CHR 0xF0, CHR 0x9F, CHR 0x98, CHR 0x83]"

definition emoji_cake :: string where
  "emoji_cake = [CHR 0xF0, CHR 0x9F, CHR 0x8D, CHR 0xB0]"

definition emoji_slight_smile :: string where
  "emoji_slight_smile = [CHR 0xF0, CHR 0x9F, CHR 0x99, CHR 0x82]"

definition emoji_sparkles :: string where
  "emoji_sparkles = [CHR 0xE2, CHR 0x9C, CHR 0xA8]"

definition choose_cakeday_wish :: "env \<Rightarrow> string \<Rightarrow> string" where
  "choose_cakeday_wish e age_str =
     (let emojis = [emoji_smile, emoji_smiley, emoji_cake];
          emoji = random_choice e emojis
      in ''Happy '' @ age_str @ '' cake day! '' @ emoji)"

text \<open>
  Equality of accounts is the client's: \<^verbatim>\<open>author == "CaDaBot"\<close> and
  \<^verbatim>\<open>author == other\<close> compare the names after \<^verbatim>\<open>.lower()\<close>; \<^verbatim>\<open>None\<close> equals only \<^verbatim>\<open>None\<close>.
\<close>

definition author_is :: "env \<Rightarrow> redditor option \<Rightarrow> string \<Rightarrow> bool" where
  "author_is e a s =
     (case a of None \<Rightarrow> False | Some r \<Rightarrow> str_lower e s = str_lower e (name r))"

definition author_eq :: "env \<Rightarrow> redditor option \<Rightarrow> redditor option \<Rightarrow> bool" where
  "author_eq e a b =
     (case a of
        None \<Rightarrow> (case b of None \<Rightarrow> True | Some _ \<Rightarrow> False)
      | Some r \<Rightarrow>
          (case b of
             None \<Rightarrow> False
           | Some r' \<Rightarrow> str_lower e (name r) = str_lower e (name r')))"

subsection \<open>The cake-day detector\<close>

text \<open>
  \<^verbatim>\<open>post_if_cakeday(post, tnow)\<close>. \<^verbatim>\<open>age_ordinal[:-2]\<close> and \<^verbatim>\<open>age_ordinal[-2:]\<close> are
  \<open>take\<close> and \<open>drop\<close> at the length less two (truncated at zero, as the slices are).
\<close>

definition post_if_cakeday :: "env \<Rightarrow> post \<Rightarrow> datetime \<Rightarrow> world \<Rightarrow> (error + unit) \<times> world" where
  "post_if_cakeday e post tnow w =
     (case get_cakeday_status (author post) (db w) of
        (Inl err, db1) \<Rightarrow> (Inl err, w\<lparr>db := db1\<rparr>)
      | (Inr status, db1) \<Rightarrow>
          let w1 = w\<lparr>db := db1\<rparr>
          in if year tnow \<in> set (years_wished_cakeday status) then (Inr (), w1)
             else
               (case utcfromtimestamp (s_created_utc status) of
                  Inl err \<Rightarrow> (Inl err, w1)
                | Inr cakeday \<Rightarrow>
                    if year cakeday = year tnow then (Inr (), w1)
                    else
                      (case replace_year cakeday (year tnow) of
                         Inl err \<Rightarrow> (Inl err, w1)
                       | Inr cakeday_this_year \<Rightarrow>
                           if date cakeday_this_year = date tnow then
                             (case author post of
                                None \<Rightarrow> (Inl AttributeError, w1)
                              | Some a \<Rightarrow>
                                  let age = year tnow - year cakeday;
                                      age_ordinal = ordinal e age;
                                      age_str = take (length age_ordinal - 2) age_ordinal
                                                @ ''^'' @ drop (length age_ordinal - 2) age_ordinal;
                                      text = choose_cakeday_wish e age_str;
                                      w2 = w1\<lparr>sent := sent w1 @ [(post, text)]\<rparr>;
                                      status' = status\<lparr>years_wished_cakeday :=
                                                  years_wished_cakeday status @ [year tnow]\<rparr>
                                  in (Inr (), w2\<lparr>db := AList.update (name a) status' (db w2)\<rparr>))
                           else (Inr (), w1))))"

text \<open>The text of the wish for an age, lines 112 to 114.\<close>

definition wish_text :: "env \<Rightarrow> int \<Rightarrow> string" where
  "wish_text e age =
     (let age_ordinal = ordinal e age;
          age_str = take (length age_ordinal - 2) age_ordinal
                    @ ''^'' @ drop (length age_ordinal - 2) age_ordinal
      in choose_cakeday_wish e age_str)"

text \<open>The years already wished that the store holds for a name: none without a record.\<close>

definition wished_years :: "store \<Rightarrow> string \<Rightarrow> int list" where
  "wished_years d k = (case map_of d k of None \<Rightarrow> [] | Some st \<Rightarrow> years_wished_cakeday st)"

subsection \<open>The thank-you detector\<close>

definition bot_name :: string where
  "bot_name = ''CaDaBot''"

definition thanks_options :: "string list" where
  "thanks_options =
     [''You're welcome! See you next year! '' @ emoji_smile,
      ''You're welcome! '' @ emoji_slight_smile @ '' Have a great day!'',
      ''You're welcome! May the karma gods shine favourably upon you '' @ emoji_sparkles]"

text \<open>
  \<^verbatim>\<open>post_if_response_to_cakeday_wish(post, tnow)\<close>. A submission has no \<^verbatim>\<open>parent\<close>
  method, so \<^verbatim>\<open>parent.parent()\<close> on a submission raises \<^verbatim>\<open>AttributeError\<close>.
\<close>

definition post_if_response_to_cakeday_wish ::
    "env \<Rightarrow> post \<Rightarrow> datetime \<Rightarrow> world \<Rightarrow> (error + unit) \<times> world" where
  "post_if_response_to_cakeday_wish e post tnow w =
     (case get_cakeday_status (author post) (db w) of
        (Inl err, db1) \<Rightarrow> (Inl err, w\<lparr>db := db1\<rparr>)
      | (Inr status, db1) \<Rightarrow>
          let w1 = w\<lparr>db := db1\<rparr>
          in (case utcfromtimestamp (s_created_utc status) of
                Inl err \<Rightarrow> (Inl err, w1)
              | Inr cakeday \<Rightarrow>
                  (case replace_year cakeday (year tnow) of
                     Inl err \<Rightarrow> (Inl err, w1)
                   | Inr cakeday_this_year \<Rightarrow>
                       if date cakeday_this_year \<noteq> date tnow then (Inr (), w1)
                       else if \<not> is_comment post then (Inr (), w1)
                       else if \<not> contains ''thank'' (str_lower e (body post)) then (Inr (), w1)
                       else
                         let polarity = sia e (body post)
                         in if \<not> (pos polarity > 4 / 10 \<and> neg polarity = 0) then (Inr (), w1)
                            else if \<not> author_is e (author (parent post)) bot_name then (Inr (), w1)
                            else if \<not> is_comment (parent post) then (Inl AttributeError, w1)
                            else if \<not> author_eq e (author (parent (parent post))) (author post)
                              then (Inr (), w1)
                            else if list_ex (\<lambda>reply. author_is e (author reply) bot_name) (replies post)
                              then (Inr (), w1)
                            else
                              let text = random_choice e thanks_options
                              in (Inr (), w1\<lparr>sent := sent w1 @ [(post, text)]\<rparr>))))"

text \<open>
  Lines 127 to 131 as a predicate: the record of the author resolves, its creation
  time converts, the year replacement succeeds, and the date it gives is today's.
\<close>

definition anniversary_today :: "redditor option \<Rightarrow> store \<Rightarrow> datetime \<Rightarrow> bool" where
  "anniversary_today a d tnow =
     (case get_cakeday_status a d of
        (Inl err, _) \<Rightarrow> False
      | (Inr status, _) \<Rightarrow>
          (case utcfromtimestamp (s_created_utc status) of
             Inl err \<Rightarrow> False
           | Inr cakeday \<Rightarrow>
               (case replace_year cakeday (year tnow) of
                  Inl err \<Rightarrow> False
                | Inr cakeday_this_year \<Rightarrow> date cakeday_this_year = date tnow)))"

subsection \<open>An invariant of the store\<close>

text \<open>
  The program appends a year to a record only after the year replacement succeeded for
  it (line 103 comes before line 118). So in every store the program builds from the
  empty one, each wished year of each record is a year in which the creation date
  exists: \<open>store_inv\<close>.
\<close>

definition anniversary_exists :: "status \<Rightarrow> int \<Rightarrow> bool" where
  "anniversary_exists st y =
     (case utcfromtimestamp (s_created_utc st) of
        Inl err \<Rightarrow> False
      | Inr cakeday \<Rightarrow>
          (case replace_year cakeday y of Inl err \<Rightarrow> False | Inr _ \<Rightarrow> True))"

definition store_inv :: "store \<Rightarrow> bool" where
  "store_inv d =
     (\<forall>(k, st) \<in> set d. \<forall>y \<in> set (years_wished_cakeday st). anniversary_exists st y)"

subsection \<open>The purge\<close>

text \<open>
  \<^verbatim>\<open>remove_old_cakedays()\<close>, with the clock reading \<open>tnow\<close> as an argument and without
  its log lines. The first loop collects the keys to remove in row order and stops
  when a stored time does not convert; the second deletes them, and \<^verbatim>\<open>del db[k]\<close> on
  an absent key raises \<^verbatim>\<open>KeyError\<close>.
\<close>

definition created_dm :: "status \<Rightarrow> error + int \<times> int" where
  "created_dm v =
     (case utcfromtimestamp (s_created_utc v) of
        Inl err \<Rightarrow> Inl err
      | Inr t_created \<Rightarrow> Inr (day t_created, month t_created))"

fun collect_old :: "int \<times> int \<Rightarrow> store \<Rightarrow> string list \<Rightarrow> error + string list" where
  "collect_old today_dm [] to_remove = Inr to_remove"
| "collect_old today_dm ((k, v) # items) to_remove =
     (case created_dm v of
        Inl err \<Rightarrow> Inl err
      | Inr dm \<Rightarrow>
          if dm \<noteq> today_dm then collect_old today_dm items (to_remove @ [k])
          else collect_old today_dm items to_remove)"

fun delete_keys :: "string list \<Rightarrow> store \<Rightarrow> (error + unit) \<times> store" where
  "delete_keys [] d = (Inr (), d)"
| "delete_keys (k # ks) d =
     (case map_of d k of
        None \<Rightarrow> (Inl KeyError, d)
      | Some _ \<Rightarrow> delete_keys ks (AList.delete k d))"

definition remove_old_cakedays :: "datetime \<Rightarrow> store \<Rightarrow> (error + unit) \<times> store" where
  "remove_old_cakedays tnow d =
     (let today_dm = (day tnow, month tnow)
      in case collect_old today_dm d [] of
           Inl err \<Rightarrow> (Inl err, d)
         | Inr to_remove \<Rightarrow> delete_keys to_remove d)"

subsection \<open>The stream merger\<close>

text \<open>
  \<^verbatim>\<open>submissions_and_comments(subreddit, **kwargs)\<close>, with what \<^verbatim>\<open>subreddit.new\<close> and
  \<^verbatim>\<open>subreddit.comments\<close> return as arguments. \<^verbatim>\<open>list.sort(key=..., reverse=True)\<close> is
  stable and keeps items of equal key in their order: it is the stable sort on the
  negated key.
\<close>

definition submissions_and_comments :: "post list \<Rightarrow> post list \<Rightarrow> post list" where
  "submissions_and_comments new comments =
     (let results = new @ comments
      in sort_key (\<lambda>post. - post_created_utc post) results)"

subsection \<open>The worker loop\<close>

text \<open>
  \<^verbatim>\<open>hasattr(post.author, "is_suspended") and post.author.is_suspended\<close>.
\<close>

definition suspended :: "redditor option \<Rightarrow> bool" where
  "suspended a =
     (case a of
        None \<Rightarrow> False
      | Some r \<Rightarrow> (case is_suspended r of None \<Rightarrow> False | Some b \<Rightarrow> b))"

text \<open>
  One pass through the body of the loop of \<^verbatim>\<open>run\<close>, for the item \<open>item\<close> of the stream
  (\<open>None\<close> is the stream's pause marker) and the clock reading \<open>tnow\<close>.
\<close>

definition run_step :: "env \<Rightarrow> datetime \<Rightarrow> post option \<Rightarrow> world \<Rightarrow> (error + unit) \<times> world" where
  "run_step e tnow item w =
     (let w1 = (if hour tnow = 23 \<and> minute tnow > 45
                then w\<lparr>slept := slept w @ [60 * 20]\<rparr> else w)
      in case item of
           None \<Rightarrow> (Inr (), w1)
         | Some post \<Rightarrow>
             if suspended (author post) then (Inr (), w1)
             else
               (case utcfromtimestamp (post_created_utc post) of
                  Inl err \<Rightarrow> (Inl err, w1)
                | Inr time_posted \<Rightarrow>
                    if \<not> (date time_posted = date tnow) then (Inr (), w1)
                    else if author post = None then (Inr (), w1)
                    else
                      (case post_if_cakeday e post tnow w1 of
                         (Inl err, w2) \<Rightarrow> (Inl err, w2)
                       | (Inr _, w2) \<Rightarrow> post_if_response_to_cakeday_wish e post tnow w2)))"

text \<open>
  The loop over a finite prefix of the stream, each item with the clock reading taken
  for it. An exception ends the loop; \<open>Inr ()\<close> means the prefix is used up.
\<close>

fun run :: "env \<Rightarrow> (datetime \<times> post option) list \<Rightarrow> world \<Rightarrow> (error + unit) \<times> world" where
  "run e [] w = (Inr (), w)"
| "run e ((tnow, item) # stream) w =
     (case run_step e tnow item w of
        (Inl err, w') \<Rightarrow> (Inl err, w')
      | (Inr _, w') \<Rightarrow> run e stream w')"

subsection \<open>The recovery wrapper\<close>

text \<open>
  \<^verbatim>\<open>run_with_exception_handling(sub)\<close>, as the decorated name that line 227 calls.
  What each call of \<^verbatim>\<open>run(sub)\<close> does is given from outside, one entry for each call in
  turn: it raises, or it returns; when the list is used up the call of \<^verbatim>\<open>run\<close> is
  still going.

  The call stack is part of the model. \<open>limit\<close> is the interpreter's recursion limit
  (\<^verbatim>\<open>sys.getrecursionlimit()\<close>, 1000 unless changed): a call whose frame would be deeper
  raises \<^verbatim>\<open>RecursionError\<close>, which is an \<^verbatim>\<open>Exception\<close>. \<open>frames\<close> is the number of frames
  on the stack at the call. A call of the decorated name takes two frames, one for
  the wrapper that \<^verbatim>\<open>@logger.catch\<close> puts around the function and one for the function,
  and the call of \<^verbatim>\<open>run\<close> takes a third; what the calls below \<^verbatim>\<open>run\<close>, \<^verbatim>\<open>logger.warning\<close>
  and the logging of \<^verbatim>\<open>@logger.catch\<close> need beyond their first frame is not counted.
  \<open>Run_called n\<close> records a call of \<^verbatim>\<open>run\<close> whose frame is the \<open>n\<close>-th on the stack.
\<close>

datatype run_result = Raises error | Returns

datatype wrapper_result = Raised error | Returned | Running

datatype event = Run_called nat | Warned error | Slept nat | Caught error

text \<open>
  \<^verbatim>\<open>@logger.catch\<close> with its defaults: an exception of class \<^verbatim>\<open>Exception\<close> that leaves the
  function is logged and swallowed, and the call returns \<^verbatim>\<open>None\<close>; a
  \<^verbatim>\<open>KeyboardInterrupt\<close> is not an \<^verbatim>\<open>Exception\<close> and passes.
\<close>

definition logger_catch :: "wrapper_result \<times> event list \<Rightarrow> wrapper_result \<times> event list" where
  "logger_catch out =
     (case out of
        (r, events) \<Rightarrow>
          (case r of
             Raised err \<Rightarrow>
               if err = KeyboardInterrupt then (Raised err, events)
               else (Returned, events @ [Caught err])
           | Returned \<Rightarrow> (Returned, events)
           | Running \<Rightarrow> (Running, events)))"

text \<open>
  \<open>run_with_exception_handling\<close> is the call of the decorated name from a frame at depth
  \<open>frames\<close>: when the wrapper's frame does not fit, the caller gets the
  \<^verbatim>\<open>RecursionError\<close>; when the function's frame or that of \<^verbatim>\<open>run\<close> does not fit, the error
  arises inside the wrapper (in the second case \<^verbatim>\<open>except Exception\<close> takes it first, and
  the call of \<^verbatim>\<open>logger.warning\<close> in the handler fails the same way). \<open>undecorated\<close> is the function
  of lines 217 to 227, with its own frame at depth \<open>frames\<close>; an exception of the
  recursive call leaves the \<^verbatim>\<open>except\<close> block it is made in. \<^verbatim>\<open>except Exception\<close> takes
  every error of the model but \<^verbatim>\<open>KeyboardInterrupt\<close>.
\<close>

fun run_with_exception_handling ::
      "nat \<Rightarrow> nat \<Rightarrow> run_result list \<Rightarrow> wrapper_result \<times> event list"
  and undecorated :: "nat \<Rightarrow> nat \<Rightarrow> run_result list \<Rightarrow> wrapper_result \<times> event list" where
  "run_with_exception_handling limit frames results =
     (if limit < frames + 1 then (Raised RecursionError, [])
      else logger_catch
        (if limit < frames + 3 then (Raised RecursionError, [])
         else undecorated limit (frames + 2) results))"
| "undecorated limit frames [] = (Running, [Run_called (frames + 1)])"
| "undecorated limit frames (Returns # _) = (Returned, [Run_called (frames + 1)])"
| "undecorated limit frames (Raises err # rest) =
     (if err = KeyboardInterrupt then (Raised KeyboardInterrupt, [Run_called (frames + 1)])
      else
        (case run_with_exception_handling limit frames rest of
           (r, events) \<Rightarrow> (r, [Run_called (frames + 1), Warned err, Slept 60] @ events)))"

text \<open>
  What the specification asks of the wrapper for a run of failures, in its words: for
  each failure in turn the worker loop was started, a warning with the failure is
  logged, and the wrapper sleeps 60 seconds. The frame counts are those of the code
  above: the worker loop of each restart runs two frames deeper than the one before.
\<close>

fun retries :: "nat \<Rightarrow> error list \<Rightarrow> event list" where
  "retries frames [] = []"
| "retries frames (err # errs) =
     [Run_called (frames + 3), Warned err, Slept 60] @ retries (frames + 2) errs"

subsection \<open>Sample collaborators\<close>

text \<open>
  The branch of \<^verbatim>\<open>inflect\<close>'s \<^verbatim>\<open>ordinal\<close> for a number written in digits: the suffix is
  looked up for the last two digits, then for the last one.
\<close>

fun show_nat :: "nat \<Rightarrow> string" where
  "show_nat n =
     (if n < 10 then [''0123456789'' ! n]
      else show_nat (n div 10) @ [''0123456789'' ! (n mod 10)])"

definition nth_suffix :: "nat \<Rightarrow> string" where
  "nth_suffix n =
     (if n mod 100 = 11 \<or> n mod 100 = 12 \<or> n mod 100 = 13 then ''th''
      else if n mod 10 = 1 then ''st''
      else if n mod 10 = 2 then ''nd''
      else if n mod 10 = 3 then ''rd''
      else ''th'')"

definition inflect_ordinal :: "nat \<Rightarrow> string" where
  "inflect_ordinal n = show_nat n @ nth_suffix n"

text \<open>
  \<^verbatim>\<open>str.lower()\<close> as it acts on ASCII text, the only text of the examples: the letters
  \<^verbatim>\<open>A\<close> to \<^verbatim>\<open>Z\<close> go to \<^verbatim>\<open>a\<close> to \<^verbatim>\<open>z\<close>.
\<close>

fun translate :: "string \<Rightarrow> string \<Rightarrow> char \<Rightarrow> char" where
  "translate (a # as) (b # bs) c = (if c = a then b else translate as bs c)"
| "translate _ _ c = c"

definition ascii_lower_char :: "char \<Rightarrow> char" where
  "ascii_lower_char c =
     translate ''ABCDEFGHIJKLMNOPQRSTUVWXYZ'' ''abcdefghijklmnopqrstuvwxyz'' c"

definition ascii_lower :: "string \<Rightarrow> string" where
  "ascii_lower s = map ascii_lower_char s"

text \<open>
  An environment for the examples, whose texts are ASCII: a sentiment analyser that
  finds every text positive, the ordinal formatter above (the examples use it at ages
  from 0 on), the draw 0, and the lower case of ASCII text.
\<close>

definition sample_env :: env where
  "sample_env =
     \<lparr>sia = (\<lambda>_. \<lparr>pos = 6 / 10, neg = 0\<rparr>),
      ordinal = (\<lambda>age. inflect_ordinal (nat age)),
      rnd = 0,
      str_lower = ascii_lower\<rparr>"

subsection \<open>Sample data\<close>

text \<open>
  An account created on 2015-03-14 at 10:00:00 UTC, the bot's own account, an account
  created on 2016-02-29, and clock readings on 2024-03-14 and 2023-02-28.
\<close>

definition alice :: redditor where
  "alice = \<lparr>name = ''alice'', created_utc = 1426327200, is_suspended = None\<rparr>"

definition cadabot :: redditor where
  "cadabot = \<lparr>name = ''CaDaBot'', created_utc = 1500000000, is_suspended = None\<rparr>"

definition leapling :: redditor where
  "leapling = \<lparr>name = ''leapling'', created_utc = 1456704000, is_suspended = None\<rparr>"

definition now_2024_03_14 :: datetime where
  "now_2024_03_14 = \<lparr>year = 2024, month = 3, day = 14, hour = 9, minute = 0, second = 0\<rparr>"

definition now_2023_02_28 :: datetime where
  "now_2023_02_28 = \<lparr>year = 2023, month = 2, day = 28, hour = 12, minute = 0, second = 0\<rparr>"

text \<open>The store after \<open>alice\<close> was seen, and after she was wished in 2024.\<close>

definition alice_seen :: world where
  "alice_seen =
     \<lparr>db = [(''alice'', \<lparr>s_created_utc = 1426327200, years_wished_cakeday = []\<rparr>)],
      sent = [], slept = []\<rparr>"

definition alice_wished :: world where
  "alice_wished =
     \<lparr>db = [(''alice'', \<lparr>s_created_utc = 1426327200, years_wished_cakeday = [2024]\<rparr>)],
      sent = [], slept = []\<rparr>"

text \<open>
  The store holding the record of \<open>leapling\<close>, wished in 2020, and a submission of that
  account on 2023-02-28.
\<close>

definition leapling_seen :: world where
  "leapling_seen =
     \<lparr>db = [(''leapling'', \<lparr>s_created_utc = 1456704000, years_wished_cakeday = [2020]\<rparr>)],
      sent = [], slept = []\<rparr>"

definition leapling_post :: post where
  "leapling_post = Submission (Some leapling) 1677585600"

text \<open>
  A store with three records, created on 2015-03-14, 2018-03-14 and 2019-03-20.
\<close>

definition march_store :: store where
  "march_store =
     [(''alice'', \<lparr>s_created_utc = 1426327200, years_wished_cakeday = [2024]\<rparr>),
      (''bob'', \<lparr>s_created_utc = 1520985600, years_wished_cakeday = []\<rparr>),
      (''carol'', \<lparr>s_created_utc = 1553040000, years_wished_cakeday = []\<rparr>)]"

text \<open>A clock reading fourteen and a half minutes before midnight.\<close>

definition now_23_45_30 :: datetime where
  "now_23_45_30 = \<lparr>year = 2024, month = 3, day = 14, hour = 23, minute = 45, second = 30\<rparr>"

definition world0 :: world where
  "world0 = \<lparr>db = [], sent = [], slept = []\<rparr>"

text \<open>
  A submission by \<open>alice\<close> on 2024-03-14, the bot's wish under it, and her thanks under
  the wish.
\<close>

definition alice_post :: post where
  "alice_post = Submission (Some alice) 1710406000"

definition bot_wish :: post where
  "bot_wish = Comment (Some cadabot) 1710406900 ''Happy 9^th cake day!'' alice_post []"

definition alice_thanks :: post where
  "alice_thanks = Comment (Some alice) 1710407000 ''Thank you so much'' bot_wish []"

text \<open>The same comment delivered again, once the bot has answered it.\<close>

definition bot_welcome :: post where
  "bot_welcome =
     Comment (Some cadabot) 1710407100 ''You're welcome! See you next year!'' alice_thanks []"

definition alice_thanks_answered :: post where
  "alice_thanks_answered =
     Comment (Some alice) 1710407000 ''Thank you so much'' bot_wish [bot_welcome]"

section \<open>Properties\<close>

subsection \<open>The record store: \<^verbatim>\<open>get_cakeday_status\<close>\<close>

lemma get_cakeday_status_new:
  "map_of d (name r) = None \<Longrightarrow>
   get_cakeday_status (Some r) d =
     (Inr \<lparr>s_created_utc = created_utc r, years_wished_cakeday = []\<rparr>,
      AList.update (name r) \<lparr>s_created_utc = created_utc r, years_wished_cakeday = []\<rparr> d)"
  by (simp add: get_cakeday_status_def update_conv')

lemma get_cakeday_status_same:
  "map_of d (name r) = Some user \<Longrightarrow> created_utc r = s_created_utc user \<Longrightarrow>
   get_cakeday_status (Some r) d = (Inr user, d)"
  by (simp add: get_cakeday_status_def)

lemma get_cakeday_status_differs:
  "map_of d (name r) = Some user \<Longrightarrow> created_utc r \<noteq> s_created_utc user \<Longrightarrow>
   get_cakeday_status (Some r) d = (Inl AssertionError, d)"
  by (simp add: get_cakeday_status_def)

lemma get_cakeday_status_Inr:
  "get_cakeday_status a d = (Inr user, d1) \<Longrightarrow>
   \<exists>r. a = Some r \<and> map_of d1 (name r) = Some user \<and> s_created_utc user = created_utc r
     \<and> (d1 = d \<or> (map_of d (name r) = None \<and> years_wished_cakeday user = []
          \<and> d1 = AList.update (name r) user d))"
  by (auto simp: get_cakeday_status_def update_conv' Let_def split: option.splits if_splits)

text \<open>
  C5. \<^verbatim>\<open>get_cakeday_status\<close> called for a name with no stored record stores and returns
  a record with the observed creation time and no wished years. After a call that
  succeeded, a call for the same name returns the same record and leaves the store as
  it is when the creation time is the same, and raises \<^verbatim>\<open>AssertionError\<close> (the data
  inconsistency) with the store as it is when the creation time differs. In general, for
  a stored record the call returns it unchanged or raises, by the same test; it never
  overwrites.
\<close>

theorem get_cakeday_status_contract:
  "(map_of d (name r) = None \<longrightarrow>
      get_cakeday_status (Some r) d =
        (Inr \<lparr>s_created_utc = created_utc r, years_wished_cakeday = []\<rparr>,
         AList.update (name r) \<lparr>s_created_utc = created_utc r, years_wished_cakeday = []\<rparr> d)
      \<and> map_of (snd (get_cakeday_status (Some r) d)) (name r) =
          Some \<lparr>s_created_utc = created_utc r, years_wished_cakeday = []\<rparr>)
   \<and> (get_cakeday_status (Some r) d = (Inr user, d1) \<and> name r' = name r \<longrightarrow>
        get_cakeday_status (Some r') d1 =
          (if created_utc r' = created_utc r then (Inr user, d1) else (Inl AssertionError, d1)))
   \<and> (map_of d (name r) = Some user \<longrightarrow>
        get_cakeday_status (Some r) d =
          (if created_utc r = s_created_utc user then (Inr user, d) else (Inl AssertionError, d)))"
proof (intro conjI impI)
  assume "map_of d (name r) = None"
  then show "get_cakeday_status (Some r) d =
        (Inr \<lparr>s_created_utc = created_utc r, years_wished_cakeday = []\<rparr>,
         AList.update (name r) \<lparr>s_created_utc = created_utc r, years_wished_cakeday = []\<rparr> d)"
    by (rule get_cakeday_status_new)
  then show "map_of (snd (get_cakeday_status (Some r) d)) (name r) =
          Some \<lparr>s_created_utc = created_utc r, years_wished_cakeday = []\<rparr>"
    by (simp add: update_conv')
next
  assume a: "get_cakeday_status (Some r) d = (Inr user, d1) \<and> name r' = name r"
  then obtain "map_of d1 (name r') = Some user" "s_created_utc user = created_utc r"
    using get_cakeday_status_Inr [of "Some r" d user d1] by auto
  then show "get_cakeday_status (Some r') d1 =
          (if created_utc r' = created_utc r then (Inr user, d1) else (Inl AssertionError, d1))"
    by (simp add: get_cakeday_status_def)
next
  assume "map_of d (name r) = Some user"
  then show "get_cakeday_status (Some r) d =
          (if created_utc r = s_created_utc user then (Inr user, d) else (Inl AssertionError, d))"
    by (simp add: get_cakeday_status_def)
qed

theorem get_cakeday_status_contract_witness:
  "get_cakeday_status (Some alice) [] =
     (Inr \<lparr>s_created_utc = 1426327200, years_wished_cakeday = []\<rparr>,
      [(''alice'', \<lparr>s_created_utc = 1426327200, years_wished_cakeday = []\<rparr>)])
   \<and> get_cakeday_status (Some alice)
       [(''alice'', \<lparr>s_created_utc = 1426327200, years_wished_cakeday = []\<rparr>)] =
     (Inr \<lparr>s_created_utc = 1426327200, years_wished_cakeday = []\<rparr>,
      [(''alice'', \<lparr>s_created_utc = 1426327200, years_wished_cakeday = []\<rparr>)])
   \<and> get_cakeday_status (Some (alice\<lparr>created_utc := 1426327201\<rparr>))
       [(''alice'', \<lparr>s_created_utc = 1426327200, years_wished_cakeday = []\<rparr>)] =
     (Inl AssertionError,
      [(''alice'', \<lparr>s_created_utc = 1426327200, years_wished_cakeday = []\<rparr>)])"
proof -
  let ?st = "\<lparr>s_created_utc = 1426327200, years_wished_cakeday = []\<rparr>"
  have new: "map_of ([] :: store) (name alice) = None" by simp
  have first: "get_cakeday_status (Some alice) [] = (Inr ?st, [(''alice'', ?st)])"
    using get_cakeday_status_contract [of "[]" alice] new by (simp add: alice_def)
  have again: "get_cakeday_status (Some alice) [(''alice'', ?st)] = (Inr ?st, [(''alice'', ?st)])"
    using get_cakeday_status_contract [of "[]" alice ?st "[(''alice'', ?st)]" alice] first
    by (simp add: alice_def)
  have other: "get_cakeday_status (Some (alice\<lparr>created_utc := 1426327201\<rparr>)) [(''alice'', ?st)]
      = (Inl AssertionError, [(''alice'', ?st)])"
    using get_cakeday_status_contract
      [of "[]" alice ?st "[(''alice'', ?st)]" "alice\<lparr>created_utc := 1426327201\<rparr>"] first
    by (simp add: alice_def)
  from first again other show ?thesis by simp
qed

subsection \<open>The cake-day detector: \<^verbatim>\<open>post_if_cakeday\<close>\<close>

lemma post_if_cakeday_fires:
  assumes "get_cakeday_status (author post) (db w) = (Inr status, db1)"
    and "year tnow \<notin> set (years_wished_cakeday status)"
    and "utcfromtimestamp (s_created_utc status) = Inr cakeday"
    and "year cakeday \<noteq> year tnow"
    and "replace_year cakeday (year tnow) = Inr cakeday_this_year"
    and "date cakeday_this_year = date tnow"
  shows "\<exists>a. author post = Some a \<and>
    post_if_cakeday e post tnow w =
      (Inr (), w\<lparr>db := AList.update (name a)
                 (status\<lparr>years_wished_cakeday := years_wished_cakeday status @ [year tnow]\<rparr>) db1,
               sent := sent w @ [(post, wish_text e (year tnow - year cakeday))]\<rparr>)"
proof -
  obtain a where a: "author post = Some a"
    using get_cakeday_status_Inr [OF assms(1)] by auto
  show ?thesis
    using assms a by (simp add: post_if_cakeday_def wish_text_def Let_def)
qed

lemma post_if_cakeday_sent:
  assumes "sent (snd (post_if_cakeday e post tnow w)) \<noteq> sent w"
  shows "\<exists>status db1 cakeday cakeday_this_year.
      get_cakeday_status (author post) (db w) = (Inr status, db1)
    \<and> year tnow \<notin> set (years_wished_cakeday status)
    \<and> utcfromtimestamp (s_created_utc status) = Inr cakeday
    \<and> year cakeday \<noteq> year tnow
    \<and> replace_year cakeday (year tnow) = Inr cakeday_this_year
    \<and> date cakeday_this_year = date tnow"
  using assms
  by (auto simp: post_if_cakeday_def Let_def split: prod.splits sum.splits if_splits option.splits)

lemma post_if_cakeday_quiet:
  assumes "sent (snd (post_if_cakeday e post tnow w)) = sent w"
  shows "snd (post_if_cakeday e post tnow w) = w\<lparr>db := snd (get_cakeday_status (author post) (db w))\<rparr>"
  using assms
  by (auto simp: post_if_cakeday_def Let_def split: prod.splits sum.splits if_splits option.splits)

lemma post_if_cakeday_wished:
  assumes "author post = Some u" and "map_of (db w) (name u) = Some st"
    and "year tnow \<in> set (years_wished_cakeday st)"
  shows "post_if_cakeday e post tnow w =
    (if created_utc u = s_created_utc st then (Inr (), w) else (Inl AssertionError, w))"
  using assms by (simp add: post_if_cakeday_def get_cakeday_status_def)

lemma get_cakeday_status_wished_years:
  "wished_years (snd (get_cakeday_status a d)) k = wished_years d k"
  by (auto simp: get_cakeday_status_def wished_years_def update_conv' Let_def
      split: option.splits)

lemma utcfromtimestamp_alice:
  "utcfromtimestamp 1426327200 =
     Inr \<lparr>year = 2015, month = 3, day = 14, hour = 10, minute = 0, second = 0\<rparr>"
  by (simp add: utcfromtimestamp_def ord2ymd_def days_before_month_def Let_def)

lemma wish_text_sample_9: "wish_text sample_env 9 = ''Happy 9^th cake day! '' @ emoji_smile"
  by (simp add: wish_text_def sample_env_def inflect_ordinal_def nth_suffix_def
      choose_cakeday_wish_def random_choice_def Let_def)

lemma valid_now_2024_03_14: "valid_datetime now_2024_03_14"
  by (simp add: valid_datetime_def now_2024_03_14_def days_in_month_def)

lemma post_if_cakeday_alice_seen:
  "post_if_cakeday sample_env alice_post now_2024_03_14 alice_seen =
     (Inr (),
      \<lparr>db = [(''alice'', \<lparr>s_created_utc = 1426327200, years_wished_cakeday = [2024]\<rparr>)],
       sent = [(alice_post, ''Happy 9^th cake day! '' @ emoji_smile)], slept = []\<rparr>)"
proof -
  have g: "get_cakeday_status (author alice_post) (db alice_seen) =
      (Inr \<lparr>s_created_utc = 1426327200, years_wished_cakeday = []\<rparr>, db alice_seen)"
    by (simp add: get_cakeday_status_def alice_post_def alice_def alice_seen_def)
  have r: "replace_year \<lparr>year = 2015, month = 3, day = 14, hour = 10, minute = 0, second = 0\<rparr>
      (year now_2024_03_14) =
      Inr \<lparr>year = 2024, month = 3, day = 14, hour = 10, minute = 0, second = 0\<rparr>"
    by (simp add: replace_year_def now_2024_03_14_def days_in_month_def)
  obtain a where a: "author alice_post = Some a"
    and p: "post_if_cakeday sample_env alice_post now_2024_03_14 alice_seen =
      (Inr (), alice_seen\<lparr>db := AList.update (name a)
          \<lparr>s_created_utc = 1426327200, years_wished_cakeday = [] @ [year now_2024_03_14]\<rparr>
          (db alice_seen),
        sent := sent alice_seen @
          [(alice_post, wish_text sample_env (year now_2024_03_14 - 2015))]\<rparr>)"
    using post_if_cakeday_fires [OF g _ _ _ r, of sample_env] utcfromtimestamp_alice
    by (auto simp: date_def now_2024_03_14_def)
  from a have "a = alice" by (simp add: alice_post_def)
  with p show ?thesis
    by (simp add: alice_seen_def alice_def now_2024_03_14_def wish_text_sample_9)
qed

text \<open>
  C1. When the year of \<open>tnow\<close> is among the wished years of the record stored for the
  author of the post, \<^verbatim>\<open>post_if_cakeday\<close> leaves the whole state as it is (no reply is
  sent, no record changes); it returns, or raises \<^verbatim>\<open>AssertionError\<close> when the stored
  creation time is not the author's. And after a call that sent a wish, the same call
  on the state it left returns without changing anything.
\<close>

theorem post_if_cakeday_idempotent:
  "(author post = Some u \<and> map_of (db w) (name u) = Some st
      \<and> year tnow \<in> set (years_wished_cakeday st) \<longrightarrow>
      snd (post_if_cakeday e post tnow w) = w
      \<and> (fst (post_if_cakeday e post tnow w) = Inr ()
         \<or> fst (post_if_cakeday e post tnow w) = Inl AssertionError))
   \<and> (sent (snd (post_if_cakeday e post tnow w)) \<noteq> sent w \<longrightarrow>
        post_if_cakeday e post tnow (snd (post_if_cakeday e post tnow w)) =
          (Inr (), snd (post_if_cakeday e post tnow w)))"
proof (intro conjI impI)
  assume h: "author post = Some u \<and> map_of (db w) (name u) = Some st
      \<and> year tnow \<in> set (years_wished_cakeday st)"
  then have eq: "post_if_cakeday e post tnow w =
      (if created_utc u = s_created_utc st then (Inr (), w) else (Inl AssertionError, w))"
    by (simp add: post_if_cakeday_wished)
  from eq show "snd (post_if_cakeday e post tnow w) = w" by simp
  from eq show "fst (post_if_cakeday e post tnow w) = Inr ()
      \<or> fst (post_if_cakeday e post tnow w) = Inl AssertionError" by simp
next
  assume "sent (snd (post_if_cakeday e post tnow w)) \<noteq> sent w"
  then obtain status db1 cakeday cakeday_this_year where
      g: "get_cakeday_status (author post) (db w) = (Inr status, db1)"
    and rest: "year tnow \<notin> set (years_wished_cakeday status)"
      "utcfromtimestamp (s_created_utc status) = Inr cakeday"
      "year cakeday \<noteq> year tnow"
      "replace_year cakeday (year tnow) = Inr cakeday_this_year"
      "date cakeday_this_year = date tnow"
    using post_if_cakeday_sent by blast
  let ?st = "status\<lparr>years_wished_cakeday := years_wished_cakeday status @ [year tnow]\<rparr>"
  obtain a where a: "author post = Some a"
    and w': "post_if_cakeday e post tnow w =
      (Inr (), w\<lparr>db := AList.update (name a) ?st db1,
                 sent := sent w @ [(post, wish_text e (year tnow - year cakeday))]\<rparr>)"
    using post_if_cakeday_fires [OF g rest] by blast
  have c: "s_created_utc status = created_utc a"
    using get_cakeday_status_Inr [OF g] a by auto
  let ?w' = "w\<lparr>db := AList.update (name a) ?st db1,
                 sent := sent w @ [(post, wish_text e (year tnow - year cakeday))]\<rparr>"
  have "post_if_cakeday e post tnow ?w' = (Inr (), ?w')"
    using post_if_cakeday_wished [of post a ?w' ?st tnow e] a c
    by (simp add: update_conv')
  with w' show "post_if_cakeday e post tnow (snd (post_if_cakeday e post tnow w)) =
          (Inr (), snd (post_if_cakeday e post tnow w))"
    by simp
qed

theorem post_if_cakeday_idempotent_witness:
  "post_if_cakeday sample_env alice_post now_2024_03_14 alice_wished = (Inr (), alice_wished)
   \<and> sent (snd (post_if_cakeday sample_env alice_post now_2024_03_14 alice_seen)) =
       [(alice_post, ''Happy 9^th cake day! '' @ emoji_smile)]
   \<and> post_if_cakeday sample_env alice_post now_2024_03_14
         (snd (post_if_cakeday sample_env alice_post now_2024_03_14 alice_seen)) =
       (Inr (), snd (post_if_cakeday sample_env alice_post now_2024_03_14 alice_seen))"
proof -
  let ?st = "\<lparr>s_created_utc = 1426327200, years_wished_cakeday = [2024]\<rparr>"
  have h: "author alice_post = Some alice \<and> map_of (db alice_wished) (name alice) = Some ?st
      \<and> year now_2024_03_14 \<in> set (years_wished_cakeday ?st)"
    by (simp add: alice_post_def alice_def alice_wished_def now_2024_03_14_def)
  have ok: "fst (post_if_cakeday sample_env alice_post now_2024_03_14 alice_wished) \<noteq> Inl AssertionError"
    by (simp add: post_if_cakeday_def get_cakeday_status_def alice_post_def alice_def
        alice_wished_def now_2024_03_14_def)
  from post_if_cakeday_idempotent [of alice_post alice alice_wished ?st now_2024_03_14 sample_env] h
  have "snd (post_if_cakeday sample_env alice_post now_2024_03_14 alice_wished) = alice_wished"
    and "fst (post_if_cakeday sample_env alice_post now_2024_03_14 alice_wished) = Inr ()
       \<or> fst (post_if_cakeday sample_env alice_post now_2024_03_14 alice_wished) = Inl AssertionError"
    by blast+
  with ok have first:
    "post_if_cakeday sample_env alice_post now_2024_03_14 alice_wished = (Inr (), alice_wished)"
    by (simp add: prod_eq_iff)
  have fired: "sent (snd (post_if_cakeday sample_env alice_post now_2024_03_14 alice_seen)) =
       [(alice_post, ''Happy 9^th cake day! '' @ emoji_smile)]"
    by (simp add: post_if_cakeday_alice_seen)
  then have "sent (snd (post_if_cakeday sample_env alice_post now_2024_03_14 alice_seen))
      \<noteq> sent alice_seen"
    by (simp add: alice_seen_def)
  with post_if_cakeday_idempotent [of alice_post alice alice_seen ?st now_2024_03_14 sample_env]
  have "post_if_cakeday sample_env alice_post now_2024_03_14
         (snd (post_if_cakeday sample_env alice_post now_2024_03_14 alice_seen)) =
       (Inr (), snd (post_if_cakeday sample_env alice_post now_2024_03_14 alice_seen))"
    by blast
  with first fired show ?thesis by blast
qed

lemma replace_year_date_iff:
  assumes "valid_datetime tnow"
  shows "(\<exists>d. replace_year cakeday (year tnow) = Inr d \<and> date d = date tnow)
     = (month cakeday = month tnow \<and> day cakeday = day tnow)"
  using assms
  by (auto simp: replace_year_def valid_datetime_def date_def)

text \<open>
  C6. For a post of an account whose creation year is the year of \<open>tnow\<close>, whether the
  creation time is read from the account or from the record stored for it,
  \<^verbatim>\<open>post_if_cakeday\<close> sends no reply, and the wished years stored for every name are what
  they were (the call may store a new record for the author, without wished years).
\<close>

theorem post_if_cakeday_first_year:
  assumes "author post = Some u"
    and "utcfromtimestamp (created_utc u) = Inr cakeday
      \<or> (\<exists>st. map_of (db w) (name u) = Some st \<and> utcfromtimestamp (s_created_utc st) = Inr cakeday)"
    and "year cakeday = year tnow"
  shows "sent (snd (post_if_cakeday e post tnow w)) = sent w
    \<and> wished_years (db (snd (post_if_cakeday e post tnow w))) k = wished_years (db w) k"
proof -
  have quiet: "sent (snd (post_if_cakeday e post tnow w)) = sent w"
  proof (rule ccontr)
    assume "sent (snd (post_if_cakeday e post tnow w)) \<noteq> sent w"
    then obtain status db1 cakeday' where
        g: "get_cakeday_status (author post) (db w) = (Inr status, db1)"
      and c: "utcfromtimestamp (s_created_utc status) = Inr cakeday'"
      and y: "year cakeday' \<noteq> year tnow"
      using post_if_cakeday_sent by blast
    from get_cakeday_status_Inr [OF g] assms(1)
    have s: "s_created_utc status = created_utc u"
      and d: "map_of db1 (name u) = Some status"
      and n: "db1 = db w \<or> map_of (db w) (name u) = None"
      by auto
    from assms(2) have "cakeday' = cakeday"
    proof
      assume "utcfromtimestamp (created_utc u) = Inr cakeday"
      with c s show ?thesis by simp
    next
      assume "\<exists>st. map_of (db w) (name u) = Some st \<and> utcfromtimestamp (s_created_utc st) = Inr cakeday"
      then obtain st where "map_of (db w) (name u) = Some st"
        and "utcfromtimestamp (s_created_utc st) = Inr cakeday" by blast
      with n d c show ?thesis by auto
    qed
    with y assms(3) show False by simp
  qed
  then have "snd (post_if_cakeday e post tnow w) =
      w\<lparr>db := snd (get_cakeday_status (author post) (db w))\<rparr>"
    by (rule post_if_cakeday_quiet)
  then have "wished_years (db (snd (post_if_cakeday e post tnow w))) k = wished_years (db w) k"
    by (simp add: get_cakeday_status_wished_years)
  with quiet show ?thesis by simp
qed

theorem post_if_cakeday_first_year_witness:
  "sent (snd (post_if_cakeday sample_env alice_post
       \<lparr>year = 2015, month = 3, day = 14, hour = 12, minute = 0, second = 0\<rparr> world0)) = []
   \<and> wished_years (db (snd (post_if_cakeday sample_env alice_post
       \<lparr>year = 2015, month = 3, day = 14, hour = 12, minute = 0, second = 0\<rparr> world0))) ''alice'' = []"
proof -
  have a: "author alice_post = Some alice" by (simp add: alice_post_def)
  have c: "utcfromtimestamp (created_utc alice) =
      Inr \<lparr>year = 2015, month = 3, day = 14, hour = 10, minute = 0, second = 0\<rparr>"
    by (simp add: alice_def utcfromtimestamp_alice)
  show ?thesis
    using post_if_cakeday_first_year [OF a disjI1 [OF c], of
        "\<lparr>year = 2015, month = 3, day = 14, hour = 12, minute = 0, second = 0\<rparr>"
        sample_env world0 "''alice''"]
    by (simp add: world0_def wished_years_def)
qed

text \<open>
  C3. Take a post whose author's record is stored (a record under the author's name,
  with the author's creation time), whose author was created in another year than
  that of \<open>tnow\<close>, and for which the year of \<open>tnow\<close> is not among the wished years. Then
  \<^verbatim>\<open>post_if_cakeday\<close> sends a wish exactly when the creation date with its year replaced
  by the year of \<open>tnow\<close> exists and is the date of \<open>tnow\<close>, which is exactly when the
  month and the day of the creation date are those of \<open>tnow\<close>. When it does, it replies
  to the post with the wish for the age \<open>year tnow - year cakeday\<close> and appends the year
  to the record; the wish is \<^verbatim>\<open>Happy\<close>, the ordinal of the age with \<^verbatim>\<open>^\<close> before its last
  two characters, \<^verbatim>\<open>cake day!\<close> and one of the three emojis.
\<close>

theorem post_if_cakeday_day_and_month:
  assumes "author post = Some u"
    and "map_of (db w) (name u) = Some st"
    and "s_created_utc st = created_utc u"
    and "utcfromtimestamp (created_utc u) = Inr cakeday"
    and "year cakeday \<noteq> year tnow"
    and "year tnow \<notin> set (years_wished_cakeday st)"
    and "valid_datetime tnow"
  shows "((sent (snd (post_if_cakeday e post tnow w)) \<noteq> sent w)
        = (\<exists>d. replace_year cakeday (year tnow) = Inr d \<and> date d = date tnow))
    \<and> ((sent (snd (post_if_cakeday e post tnow w)) \<noteq> sent w)
        = (month cakeday = month tnow \<and> day cakeday = day tnow))
    \<and> (month cakeday = month tnow \<and> day cakeday = day tnow \<longrightarrow>
         post_if_cakeday e post tnow w =
           (Inr (), w\<lparr>db := AList.update (name u)
                       (st\<lparr>years_wished_cakeday := years_wished_cakeday st @ [year tnow]\<rparr>) (db w),
                     sent := sent w @ [(post, wish_text e (year tnow - year cakeday))]\<rparr>))
    \<and> wish_text e (year tnow - year cakeday) =
         ''Happy ''
         @ take (length (ordinal e (year tnow - year cakeday)) - 2) (ordinal e (year tnow - year cakeday))
         @ ''^''
         @ drop (length (ordinal e (year tnow - year cakeday)) - 2) (ordinal e (year tnow - year cakeday))
         @ '' cake day! ''
         @ [emoji_smile, emoji_smiley, emoji_cake] ! (rnd e mod 3)"
proof -
  have g: "get_cakeday_status (author post) (db w) = (Inr st, db w)"
    using assms(1,2,3) by (simp add: get_cakeday_status_same)
  have c: "utcfromtimestamp (s_created_utc st) = Inr cakeday"
    using assms(3,4) by simp
  have fires: "post_if_cakeday e post tnow w =
           (Inr (), w\<lparr>db := AList.update (name u)
                       (st\<lparr>years_wished_cakeday := years_wished_cakeday st @ [year tnow]\<rparr>) (db w),
                     sent := sent w @ [(post, wish_text e (year tnow - year cakeday))]\<rparr>)"
    if "replace_year cakeday (year tnow) = Inr d" and "date d = date tnow" for d
    using post_if_cakeday_fires [OF g assms(6) c assms(5) that, of e] assms(1) by auto
  have one: "(sent (snd (post_if_cakeday e post tnow w)) \<noteq> sent w)
        = (\<exists>d. replace_year cakeday (year tnow) = Inr d \<and> date d = date tnow)"
  proof
    assume "sent (snd (post_if_cakeday e post tnow w)) \<noteq> sent w"
    then obtain status db1 cakeday' cty where
        "get_cakeday_status (author post) (db w) = (Inr status, db1)"
        "utcfromtimestamp (s_created_utc status) = Inr cakeday'"
        "replace_year cakeday' (year tnow) = Inr cty" "date cty = date tnow"
      using post_if_cakeday_sent by blast
    with g c show "\<exists>d. replace_year cakeday (year tnow) = Inr d \<and> date d = date tnow"
      by auto
  next
    assume "\<exists>d. replace_year cakeday (year tnow) = Inr d \<and> date d = date tnow"
    then obtain d where "replace_year cakeday (year tnow) = Inr d" "date d = date tnow"
      by blast
    then show "sent (snd (post_if_cakeday e post tnow w)) \<noteq> sent w"
      using fires by simp
  qed
  have iff: "(\<exists>d. replace_year cakeday (year tnow) = Inr d \<and> date d = date tnow)
     = (month cakeday = month tnow \<and> day cakeday = day tnow)"
    using assms(7) by (rule replace_year_date_iff)
  have three: "month cakeday = month tnow \<and> day cakeday = day tnow \<longrightarrow>
         post_if_cakeday e post tnow w =
           (Inr (), w\<lparr>db := AList.update (name u)
                       (st\<lparr>years_wished_cakeday := years_wished_cakeday st @ [year tnow]\<rparr>) (db w),
                     sent := sent w @ [(post, wish_text e (year tnow - year cakeday))]\<rparr>)"
    using iff fires by blast
  have four: "wish_text e (year tnow - year cakeday) =
         ''Happy ''
         @ take (length (ordinal e (year tnow - year cakeday)) - 2) (ordinal e (year tnow - year cakeday))
         @ ''^''
         @ drop (length (ordinal e (year tnow - year cakeday)) - 2) (ordinal e (year tnow - year cakeday))
         @ '' cake day! ''
         @ [emoji_smile, emoji_smiley, emoji_cake] ! (rnd e mod 3)"
    by (simp add: wish_text_def choose_cakeday_wish_def random_choice_def Let_def)
  from one iff three four show ?thesis by simp
qed

theorem post_if_cakeday_day_and_month_witness:
  "post_if_cakeday sample_env alice_post now_2024_03_14 alice_seen =
     (Inr (),
      \<lparr>db = [(''alice'', \<lparr>s_created_utc = 1426327200, years_wished_cakeday = [2024]\<rparr>)],
       sent = [(alice_post, ''Happy 9^th cake day! '' @ emoji_smile)], slept = []\<rparr>)
   \<and> sent (snd (post_if_cakeday sample_env alice_post
        \<lparr>year = 2024, month = 3, day = 15, hour = 9, minute = 0, second = 0\<rparr> alice_seen)) = []"
proof -
  let ?st = "\<lparr>s_created_utc = 1426327200, years_wished_cakeday = []\<rparr>"
  let ?cakeday = "\<lparr>year = 2015, month = 3, day = 14, hour = 10, minute = 0, second = 0\<rparr>"
  let ?next = "\<lparr>year = 2024, month = 3, day = 15, hour = 9, minute = 0, second = 0\<rparr>"
  have a: "author alice_post = Some alice" by (simp add: alice_post_def)
  have m: "map_of (db alice_seen) (name alice) = Some ?st"
    by (simp add: alice_seen_def alice_def)
  have s: "s_created_utc ?st = created_utc alice" by (simp add: alice_def)
  have c: "utcfromtimestamp (created_utc alice) = Inr ?cakeday"
    by (simp add: alice_def utcfromtimestamp_alice)
  have y: "year ?cakeday \<noteq> year now_2024_03_14" by (simp add: now_2024_03_14_def)
  have n: "year now_2024_03_14 \<notin> set (years_wished_cakeday ?st)" by simp
  have y': "year ?cakeday \<noteq> year ?next" by simp
  have n': "year ?next \<notin> set (years_wished_cakeday ?st)" by simp
  have v': "valid_datetime ?next" by (simp add: valid_datetime_def days_in_month_def)
  have "post_if_cakeday sample_env alice_post now_2024_03_14 alice_seen =
     (Inr (),
      \<lparr>db = [(''alice'', \<lparr>s_created_utc = 1426327200, years_wished_cakeday = [2024]\<rparr>)],
       sent = [(alice_post, ''Happy 9^th cake day! '' @ emoji_smile)], slept = []\<rparr>)"
    using post_if_cakeday_day_and_month [OF a m s c y n valid_now_2024_03_14, of sample_env]
    by (simp add: now_2024_03_14_def alice_seen_def alice_def wish_text_sample_9)
  moreover have "sent (snd (post_if_cakeday sample_env alice_post ?next alice_seen)) = []"
    using post_if_cakeday_day_and_month [OF a m s c y' n' v', of sample_env]
    by (simp add: alice_seen_def)
  ultimately show ?thesis by simp
qed

subsection \<open>The thank-you detector: \<^verbatim>\<open>post_if_response_to_cakeday_wish\<close>\<close>

lemma random_choice_thanks: "random_choice e thanks_options \<in> set thanks_options"
proof -
  have "length thanks_options = 3" by (simp add: thanks_options_def)
  then show ?thesis unfolding random_choice_def by (intro nth_mem) simp
qed

text \<open>
  C2. \<^verbatim>\<open>post_if_response_to_cakeday_wish\<close> sends a reply exactly when all of these
  hold: the anniversary date computed for the author is today's (the author's record
  resolves, and the creation date with its year replaced by the year of \<open>tnow\<close> exists
  and is the date of \<open>tnow\<close>); the post is a comment; its text after \<^verbatim>\<open>.lower()\<close> contains
  \<^verbatim>\<open>thank\<close>; its positive score is above 0.4 and its negative score is 0; the author of
  its parent is the bot; the parent has a parent, whose author is the author of the
  post; and no reply to the post is by the bot. So when any one of them fails nothing
  is sent. What is sent is at most one reply, to the post, with one of the three
  acknowledgments.
\<close>

theorem post_if_response_to_cakeday_wish_iff:
  "((sent (snd (post_if_response_to_cakeday_wish e post tnow w)) \<noteq> sent w)
      = (anniversary_today (author post) (db w) tnow
         \<and> is_comment post
         \<and> contains ''thank'' (str_lower e (body post))
         \<and> pos (sia e (body post)) > 4 / 10 \<and> neg (sia e (body post)) = 0
         \<and> author_is e (author (parent post)) bot_name
         \<and> is_comment (parent post)
         \<and> author_eq e (author (parent (parent post))) (author post)
         \<and> \<not> list_ex (\<lambda>reply. author_is e (author reply) bot_name) (replies post)))
   \<and> (sent (snd (post_if_response_to_cakeday_wish e post tnow w)) = sent w
       \<or> (\<exists>text \<in> set thanks_options.
            sent (snd (post_if_response_to_cakeday_wish e post tnow w)) = sent w @ [(post, text)]))"
proof (cases "get_cakeday_status (author post) (db w)")
  case (Pair res db1)
  show ?thesis
  proof (cases res)
    case (Inl err)
    with Pair show ?thesis
      by (simp add: post_if_response_to_cakeday_wish_def anniversary_today_def)
  next
    case (Inr status)
    show ?thesis
    proof (cases "utcfromtimestamp (s_created_utc status)")
      case (Inl err)
      with Pair \<open>res = Inr status\<close> show ?thesis
        by (simp add: post_if_response_to_cakeday_wish_def anniversary_today_def)
    next
      case c: (Inr cakeday)
      show ?thesis
      proof (cases "replace_year cakeday (year tnow)")
        case (Inl err)
        with Pair \<open>res = Inr status\<close> c show ?thesis
          by (simp add: post_if_response_to_cakeday_wish_def anniversary_today_def)
      next
        case (Inr cakeday_this_year)
        with Pair \<open>res = Inr status\<close> c show ?thesis
          using random_choice_thanks [of e]
          by (auto simp: post_if_response_to_cakeday_wish_def anniversary_today_def Let_def)
      qed
    qed
  qed
qed

lemma anniversary_today_alice:
  "anniversary_today (Some alice) (db alice_seen) now_2024_03_14"
  by (simp add: anniversary_today_def get_cakeday_status_def alice_def alice_seen_def
      utcfromtimestamp_alice replace_year_def days_in_month_def date_def now_2024_03_14_def)

theorem post_if_response_to_cakeday_wish_iff_witness:
  "sent (snd (post_if_response_to_cakeday_wish sample_env alice_thanks now_2024_03_14 alice_seen))
     \<noteq> sent alice_seen
   \<and> sent (snd (post_if_response_to_cakeday_wish sample_env alice_thanks_answered
        now_2024_03_14 alice_seen)) = sent alice_seen"
proof -
  have thank: "contains ''thank'' (str_lower sample_env (body alice_thanks))"
    by (simp add: alice_thanks_def sample_env_def ascii_lower_def ascii_lower_char_def)
  have score: "pos (sia sample_env (body alice_thanks)) > 4 / 10
      \<and> neg (sia sample_env (body alice_thanks)) = 0"
    by (simp add: sample_env_def)
  have bot: "author_is sample_env (author (parent alice_thanks)) bot_name"
    by (simp add: alice_thanks_def bot_wish_def author_is_def cadabot_def bot_name_def)
  have triangle: "is_comment (parent alice_thanks)
      \<and> author_eq sample_env (author (parent (parent alice_thanks))) (author alice_thanks)"
    by (simp add: alice_thanks_def bot_wish_def alice_post_def author_eq_def)
  have fresh: "\<not> list_ex (\<lambda>reply. author_is sample_env (author reply) bot_name)
      (replies alice_thanks)"
    by (simp add: alice_thanks_def)
  have today: "anniversary_today (author alice_thanks) (db alice_seen) now_2024_03_14"
    by (simp add: alice_thanks_def anniversary_today_alice)
  have comment: "is_comment alice_thanks" by (simp add: alice_thanks_def)
  have answered: "list_ex (\<lambda>reply. author_is sample_env (author reply) bot_name)
      (replies alice_thanks_answered)"
    by (simp add: alice_thanks_answered_def bot_welcome_def author_is_def cadabot_def bot_name_def)
  from post_if_response_to_cakeday_wish_iff [of sample_env alice_thanks now_2024_03_14 alice_seen]
    thank score bot triangle fresh today comment
  have one: "sent (snd (post_if_response_to_cakeday_wish sample_env alice_thanks now_2024_03_14
      alice_seen)) \<noteq> sent alice_seen"
    by blast
  from post_if_response_to_cakeday_wish_iff
    [of sample_env alice_thanks_answered now_2024_03_14 alice_seen] answered
  have two: "sent (snd (post_if_response_to_cakeday_wish sample_env alice_thanks_answered
        now_2024_03_14 alice_seen)) = sent alice_seen"
    by blast
  from one two show ?thesis by simp
qed

subsection \<open>The calendar: \<^verbatim>\<open>utcfromtimestamp\<close> gives dates that exist\<close>

lemma month_guess_cases:
  fixes n :: int
  assumes "0 \<le> n" and "n \<le> 364" and "m = (n + 50) div 32"
  shows "32 * m - 50 \<le> n \<and> n \<le> 32 * m - 19 \<and>
    (m = 1 \<or> m = 2 \<or> m = 3 \<or> m = 4 \<or> m = 5 \<or> m = 6 \<or> m = 7 \<or> m = 8 \<or> m = 9
      \<or> m = 10 \<or> m = 11 \<or> m = 12)"
proof -
  have "(n + 50) = 32 * m + (n + 50) mod 32" using assms(3) by simp
  moreover have "0 \<le> (n + 50) mod 32" "(n + 50) mod 32 < 32" by simp_all
  ultimately have b: "32 * m \<le> n + 50" "n + 50 \<le> 32 * m + 31" by linarith+
  with assms(1,2) have "1 \<le> m" "m \<le> 12" by linarith+
  then have "m = 1 \<or> m = 2 \<or> m = 3 \<or> m = 4 \<or> m = 5 \<or> m = 6 \<or> m = 7 \<or> m = 8 \<or> m = 9
      \<or> m = 10 \<or> m = 11 \<or> m = 12" by presburger
  with b show ?thesis by linarith
qed

lemma month_day_valid:
  fixes n :: int
  assumes "0 \<le> n" and "n \<le> 364"
    and "m = (n + 50) div 32"
    and "preceding = days_before_month m + (if m > 2 \<and> leapyear then 1 else 0)"
    and "mdays = (\<lambda>k. if k = 2 then (if leapyear then 29 else 28) else days_in_month 1 k)"
    and "res = (if preceding > n
          then (m - 1, n - (preceding - (if m - 1 = 2 \<and> leapyear then 29 else days_in_month 1 (m - 1))) + 1)
          else (m, n - preceding + 1))"
  shows "1 \<le> fst res \<and> fst res \<le> 12 \<and> 1 \<le> snd res \<and> snd res \<le> mdays (fst res)"
proof -
  from month_guess_cases [OF assms(1,2,3)]
  have b: "32 * m - 50 \<le> n" "n \<le> 32 * m - 19"
    and c: "m = 1 \<or> m = 2 \<or> m = 3 \<or> m = 4 \<or> m = 5 \<or> m = 6 \<or> m = 7 \<or> m = 8 \<or> m = 9
      \<or> m = 10 \<or> m = 11 \<or> m = 12"
    by blast+
  from c show ?thesis
    using b assms(1,2) unfolding assms(4,5,6)
    by (elim disjE) (simp_all add: days_before_month_def days_in_month_def is_leap_def)
qed

lemma mod_zero_at_top:
  fixes r k :: int
  assumes "1 \<le> r" and "r \<le> k"
  shows "(r mod k = 0) = (r = k)"
proof (cases "r = k")
  case True
  then show ?thesis by simp
next
  case False
  with assms have "r mod k = r" by simp
  with assms False show ?thesis by simp
qed

lemma leapyear_flag:
  fixes n400 n100 n4 n1 :: int
  assumes "0 \<le> n100" "n100 \<le> 3" "0 \<le> n4" "n4 \<le> 24" "0 \<le> n1" "n1 \<le> 3"
  shows "is_leap (n400 * 400 + 1 + n100 * 100 + n4 * 4 + n1) = (n1 = 3 \<and> (n4 \<noteq> 24 \<or> n100 = 3))"
proof -
  let ?y = "n400 * 400 + 1 + n100 * 100 + n4 * 4 + n1"
  define r4 where "r4 = 1 + n1"
  define r100 where "r100 = 1 + n4 * 4 + n1"
  define r400 where "r400 = 1 + n100 * 100 + n4 * 4 + n1"
  have y4: "?y = r4 + 4 * (n400 * 100 + n100 * 25 + n4)" by (simp add: r4_def)
  have y100: "?y = r100 + 100 * (n400 * 4 + n100)" by (simp add: r100_def)
  have y400: "?y = r400 + 400 * n400" by (simp add: r400_def)
  have m4: "?y mod 4 = r4 mod 4" unfolding y4 by (rule mod_mult_self2)
  have m100: "?y mod 100 = r100 mod 100" unfolding y100 by (rule mod_mult_self2)
  have m400: "?y mod 400 = r400 mod 400" unfolding y400 by (rule mod_mult_self2)
  have b4: "1 \<le> r4" "r4 \<le> 4" using assms by (simp_all add: r4_def)
  have b100: "1 \<le> r100" "r100 \<le> 100" using assms by (simp_all add: r100_def)
  have b400: "1 \<le> r400" "r400 \<le> 400" using assms by (simp_all add: r400_def)
  have "(r4 mod 4 = 0) = (r4 = 4)" using b4 by (rule mod_zero_at_top)
  then have a: "(?y mod 4 = 0) = (n1 = 3)" unfolding m4 by (auto simp: r4_def)
  have "(r100 mod 100 = 0) = (r100 = 100)" using b100 by (rule mod_zero_at_top)
  moreover have "(r100 = 100) = (n4 = 24 \<and> n1 = 3)" unfolding r100_def using assms by linarith
  ultimately have b: "(?y mod 100 = 0) = (n4 = 24 \<and> n1 = 3)" unfolding m100 by simp
  have "(r400 mod 400 = 0) = (r400 = 400)" using b400 by (rule mod_zero_at_top)
  moreover have "(r400 = 400) = (n100 = 3 \<and> n4 = 24 \<and> n1 = 3)"
    unfolding r400_def using assms by linarith
  ultimately have c: "(?y mod 400 = 0) = (n100 = 3 \<and> n4 = 24 \<and> n1 = 3)" unfolding m400 by simp
  show ?thesis unfolding is_leap_def a b c by blast
qed

lemma div_mod_bounds:
  fixes a k :: int
  assumes "0 \<le> a" and "0 < k"
  shows "0 \<le> a div k \<and> 0 \<le> a mod k \<and> a mod k < k \<and> a = k * (a div k) + a mod k"
  using assms by (simp add: pos_imp_zdiv_nonneg_iff)

lemma ord2ymd_valid:
  assumes "1 \<le> ord" and "ord \<le> 3652059" and "ord2ymd ord = (y, m, d)"
  shows "1 \<le> y \<and> y \<le> 9999 \<and> 1 \<le> m \<and> m \<le> 12 \<and> 1 \<le> d \<and> d \<le> days_in_month y m"
proof -
  define n0 where "n0 = ord - 1"
  define n400 where "n400 = n0 div 146097"
  define r1 where "r1 = n0 mod 146097"
  define n100 where "n100 = r1 div 36524"
  define r2 where "r2 = r1 mod 36524"
  define n4 where "n4 = r2 div 1461"
  define r3 where "r3 = r2 mod 1461"
  define n1 where "n1 = r3 div 365"
  define n where "n = r3 mod 365"
  define yy where "yy = n400 * 400 + 1 + n100 * 100 + n4 * 4 + n1"
  define leapyear where "leapyear = (n1 = 3 \<and> (n4 \<noteq> 24 \<or> n100 = 3))"
  define mm where "mm = (n + 50) div 32"
  define preceding where
    "preceding = days_before_month mm + (if mm > 2 \<and> leapyear then 1 else 0)"
  define res where "res = (if preceding > n
          then (mm - 1, n - (preceding - (if mm - 1 = 2 \<and> leapyear then 29 else days_in_month 1 (mm - 1))) + 1)
          else (mm, n - preceding + 1))"
  have n0: "0 \<le> n0" using assms(1) by (simp add: n0_def)
  have r1: "0 \<le> r1" "r1 < 146097" by (simp_all add: r1_def)
  have n100: "0 \<le> n100" "0 \<le> r2" "r2 < 36524" "r1 = 36524 * n100 + r2"
    using div_mod_bounds [of r1 36524] r1 by (simp_all add: n100_def r2_def)
  have n4: "0 \<le> n4" "0 \<le> r3" "r3 < 1461" "r2 = 1461 * n4 + r3"
    using div_mod_bounds [of r2 1461] n100 by (simp_all add: n4_def r3_def)
  have n1: "0 \<le> n1" "0 \<le> n" "n < 365" "r3 = 365 * n1 + n"
    using div_mod_bounds [of r3 365] n4 by (simp_all add: n1_def n_def)
  have n400: "0 \<le> n400" "n0 = 146097 * n400 + r1"
    using div_mod_bounds [of n0 146097] n0 by (simp_all add: n400_def r1_def)
  have top: "n0 \<le> 3652058" using assms(2) by (simp add: n0_def)
  have n100': "n100 \<le> 4" using n100 r1 by linarith
  have n4': "n4 \<le> 24" using n4 n100 by linarith
  have n1': "n1 \<le> 4" using n1 n4 by linarith
  have yy_le: "yy \<le> 9999"
  proof -
    have a: "n400 \<le> 24" using top n400 r1 by linarith
    show ?thesis
    proof (cases "n400 = 24")
      case False
      with a have "n400 \<le> 23" by simp
      then show ?thesis unfolding yy_def using n100' n4' n1' by linarith
    next
      case A: True
      then have r1': "r1 \<le> 145730" using top n400 by linarith
      then have b: "n100 \<le> 3" using n100 by linarith
      show ?thesis
      proof (cases "n100 = 3")
        case False
        with b have "n100 \<le> 2" by simp
        then show ?thesis unfolding yy_def using A n4' n1' by linarith
      next
        case B: True
        then have r2': "r2 \<le> 36158" using r1' n100 by linarith
        show ?thesis
        proof (cases "n4 = 24")
          case False
          with n4' have "n4 \<le> 23" by simp
          then show ?thesis unfolding yy_def using A B n1' by linarith
        next
          case C: True
          then have "r3 \<le> 1094" using r2' n4 by linarith
          then have "n1 \<le> 2" using n1 by linarith
          then show ?thesis unfolding yy_def using A B C by linarith
        qed
      qed
    qed
  qed
  have "ord2ymd ord =
      (if n1 = 4 \<or> n100 = 4 then (yy - 1, 12, 31)
       else if preceding > n
         then (yy, mm - 1, n - (preceding - (if mm - 1 = 2 \<and> leapyear then 29 else days_in_month 1 (mm - 1))) + 1)
         else (yy, mm, n - preceding + 1))"
    unfolding ord2ymd_def Let_def preceding_def mm_def leapyear_def yy_def n_def n1_def
      r3_def n4_def r2_def n100_def r1_def n400_def n0_def
    by (rule refl)
  then have unfold: "ord2ymd ord =
      (if n1 = 4 \<or> n100 = 4 then (yy - 1, 12, 31) else (yy, fst res, snd res))"
    by (simp add: res_def)
  show ?thesis
  proof (cases "n1 = 4 \<or> n100 = 4")
    case True
    with unfold assms(3) have "y = yy - 1" "m = 12" "d = 31" by simp_all
    moreover have "2 \<le> yy" unfolding yy_def using True n400 n100 n4 n1 by linarith
    ultimately show ?thesis using yy_le by (simp add: days_in_month_def)
  next
    case False
    with unfold assms(3) have ymd: "y = yy" "m = fst res" "d = snd res" by auto
    have "1 \<le> yy" unfolding yy_def using n400 n100 n4 n1 by linarith
    then have year: "1 \<le> yy" "yy \<le> 9999" using yy_le by simp_all
    from False n100' n1' have small: "n100 \<le> 3" "n1 \<le> 3" by linarith+
    have leap: "is_leap yy = leapyear"
      unfolding yy_def leapyear_def
      using leapyear_flag [OF n100(1) small(1) n4(1) n4' n1(1) small(2)] .
    have n364: "n \<le> 364" using n1 by simp
    from month_day_valid [OF n1(2) n364 mm_def preceding_def refl res_def]
    have "1 \<le> fst res \<and> fst res \<le> 12 \<and> 1 \<le> snd res
        \<and> snd res \<le> (if fst res = 2 then (if leapyear then 29 else 28)
                        else days_in_month 1 (fst res))"
      by simp
    moreover have "days_in_month yy k =
        (if k = 2 then (if leapyear then 29 else 28) else days_in_month 1 k)" for k
      by (simp add: days_in_month_def leap)
    ultimately show ?thesis using ymd year by simp
  qed
qed

lemma utcfromtimestamp_valid:
  assumes "utcfromtimestamp t = Inr dt"
  shows "valid_datetime dt"
proof -
  from assms have range: "- 62135596800 \<le> t" "t \<le> 253402300799"
    by (auto simp: utcfromtimestamp_def split: if_splits)
  define days where "days = t div 86400"
  define s where "s = t mod 86400"
  have s: "0 \<le> s" "s < 86400" "t = 86400 * days + s"
    by (simp_all add: s_def days_def)
  have lo: "1 \<le> days + 719163" using range(1) s by linarith
  have hi: "days + 719163 \<le> 3652059" using range(2) s by linarith
  obtain y m d where o: "ord2ymd (days + 719163) = (y, m, d)"
    by (cases "ord2ymd (days + 719163)") auto
  from assms range o have dt: "dt = \<lparr>year = y, month = m, day = d,
      hour = s div 3600, minute = s mod 3600 div 60, second = s mod 60\<rparr>"
    by (simp add: utcfromtimestamp_def Let_def days_def s_def)
  have h: "0 \<le> s div 3600" "s div 3600 \<le> 23"
    using div_mod_bounds [of s 3600] s by linarith+
  have mi: "0 \<le> s mod 3600 div 60" "s mod 3600 div 60 \<le> 59"
    using div_mod_bounds [of "s mod 3600" 60] div_mod_bounds [of s 3600] s by linarith+
  have se: "0 \<le> s mod 60" "s mod 60 \<le> 59"
    using div_mod_bounds [of s 60] s by linarith+
  from ord2ymd_valid [OF lo hi o] h mi se show ?thesis
    by (simp add: valid_datetime_def dt)
qed

subsection \<open>The invariant of the store is kept\<close>

lemma store_inv_empty: "store_inv []"
  by (simp add: store_inv_def)

lemma set_update_subset: "set (AList.update k v d) \<subseteq> insert (k, v) (set d)"
  by (induction d) auto

lemma set_delete_subset: "set (AList.delete k d) \<subseteq> set d"
  by (auto simp: AList.delete_eq)

lemma store_inv_update:
  assumes "store_inv d" and "\<forall>y \<in> set (years_wished_cakeday st). anniversary_exists st y"
  shows "store_inv (AList.update k st d)"
  using assms set_update_subset [of k st d] unfolding store_inv_def by blast

lemma store_inv_delete: "store_inv d \<Longrightarrow> store_inv (AList.delete k d)"
  using set_delete_subset [of k d] unfolding store_inv_def by blast

lemma store_inv_lookup:
  assumes "store_inv d" and "map_of d k = Some st" and "y \<in> set (years_wished_cakeday st)"
  shows "anniversary_exists st y"
  using assms map_of_SomeD [of d k st] unfolding store_inv_def by blast

lemma store_inv_get_cakeday_status:
  "store_inv d \<Longrightarrow> store_inv (snd (get_cakeday_status a d))"
  by (auto simp: get_cakeday_status_def Let_def store_inv_update split: option.splits)

lemma store_inv_post_if_cakeday:
  assumes "store_inv (db w)"
  shows "store_inv (db (snd (post_if_cakeday e post tnow w)))"
proof (cases "sent (snd (post_if_cakeday e post tnow w)) = sent w")
  case True
  then show ?thesis
    using post_if_cakeday_quiet [OF True] store_inv_get_cakeday_status [OF assms]
    by simp
next
  case False
  then obtain status db1 cakeday cakeday_this_year where
      g: "get_cakeday_status (author post) (db w) = (Inr status, db1)"
    and rest: "year tnow \<notin> set (years_wished_cakeday status)"
      "utcfromtimestamp (s_created_utc status) = Inr cakeday"
      "year cakeday \<noteq> year tnow"
      "replace_year cakeday (year tnow) = Inr cakeday_this_year"
      "date cakeday_this_year = date tnow"
    using post_if_cakeday_sent by blast
  let ?st = "status\<lparr>years_wished_cakeday := years_wished_cakeday status @ [year tnow]\<rparr>"
  obtain a where a: "author post = Some a"
    and w': "post_if_cakeday e post tnow w =
      (Inr (), w\<lparr>db := AList.update (name a) ?st db1,
                 sent := sent w @ [(post, wish_text e (year tnow - year cakeday))]\<rparr>)"
    using post_if_cakeday_fires [OF g rest] by blast
  have inv1: "store_inv db1"
    using store_inv_get_cakeday_status [OF assms, of "author post"] g by simp
  have "map_of db1 (name a) = Some status"
    using get_cakeday_status_Inr [OF g] a by auto
  then have old: "\<forall>y \<in> set (years_wished_cakeday status). anniversary_exists status y"
    using store_inv_lookup [OF inv1] by blast
  have "anniversary_exists ?st y" if "y \<in> set (years_wished_cakeday ?st)" for y
  proof (cases "y = year tnow")
    case True
    with rest show ?thesis by (simp add: anniversary_exists_def)
  next
    case False
    with that old have "anniversary_exists status y" by simp
    then show ?thesis by (simp add: anniversary_exists_def)
  qed
  then have "store_inv (AList.update (name a) ?st db1)"
    using store_inv_update [OF inv1] by blast
  with w' show ?thesis by simp
qed

lemma db_post_if_response_to_cakeday_wish:
  "db (snd (post_if_response_to_cakeday_wish e post tnow w))
     = snd (get_cakeday_status (author post) (db w))"
  by (auto simp: post_if_response_to_cakeday_wish_def Let_def split: prod.splits sum.splits)

lemma store_inv_post_if_response_to_cakeday_wish:
  "store_inv (db w) \<Longrightarrow> store_inv (db (snd (post_if_response_to_cakeday_wish e post tnow w)))"
  by (simp add: db_post_if_response_to_cakeday_wish store_inv_get_cakeday_status)

lemma store_inv_delete_keys: "store_inv d \<Longrightarrow> store_inv (snd (delete_keys ks d))"
  by (induction ks arbitrary: d) (auto simp: store_inv_delete split: option.splits)

lemma store_inv_remove_old_cakedays:
  "store_inv d \<Longrightarrow> store_inv (snd (remove_old_cakedays tnow d))"
  by (auto simp: remove_old_cakedays_def Let_def store_inv_delete_keys split: sum.splits)

lemma store_inv_run_step:
  assumes "store_inv (db w)"
  shows "store_inv (db (snd (run_step e tnow item w)))"
proof -
  define w1 where "w1 = (if hour tnow = 23 \<and> minute tnow > 45
                then w\<lparr>slept := slept w @ [60 * 20]\<rparr> else w)"
  have w1: "store_inv (db w1)" using assms by (simp add: w1_def)
  have two: "store_inv (db (snd (post_if_response_to_cakeday_wish e post tnow
      (snd (post_if_cakeday e post tnow w1)))))" for post
    by (intro store_inv_post_if_response_to_cakeday_wish store_inv_post_if_cakeday w1)
  have one: "store_inv (db (snd (post_if_cakeday e post tnow w1)))" for post
    by (intro store_inv_post_if_cakeday w1)
  show ?thesis
    unfolding run_step_def Let_def w1_def [symmetric]
    using w1 one two
    by (auto split: option.splits sum.splits prod.splits simp: prod_eq_iff)
qed

lemma store_inv_run:
  "store_inv (db w) \<Longrightarrow> store_inv (db (snd (run e stream w)))"
proof (induction stream arbitrary: w)
  case Nil
  then show ?case by simp
next
  case (Cons x stream)
  obtain tnow item where x: "x = (tnow, item)" by (cases x)
  from store_inv_run_step [OF Cons.prems, of e tnow item]
  show ?case using Cons.IH x
    by (auto split: prod.splits sum.splits)
qed

subsection \<open>Accounts created on 29 February\<close>

lemma replace_year_leap_day:
  assumes "month cakeday = 2" and "day cakeday = 29" and "\<not> is_leap y"
  shows "\<exists>msg. replace_year cakeday y = Inl (ValueError msg)"
  using assms by (simp add: replace_year_def days_in_month_def)

lemma leap_day_year:
  assumes "utcfromtimestamp t = Inr cakeday" and "month cakeday = 2" and "day cakeday = 29"
  shows "is_leap (year cakeday)"
proof (rule ccontr)
  assume "\<not> is_leap (year cakeday)"
  with assms(2) have "days_in_month (year cakeday) (month cakeday) = 28"
    by (simp add: days_in_month_def)
  with utcfromtimestamp_valid [OF assms(1)] assms(3) show False
    by (simp add: valid_datetime_def)
qed

lemma utcfromtimestamp_leapling:
  "utcfromtimestamp 1456704000 =
     Inr \<lparr>year = 2016, month = 2, day = 29, hour = 0, minute = 0, second = 0\<rparr>"
  by (simp add: utcfromtimestamp_def ord2ymd_def days_before_month_def days_in_month_def
      is_leap_def Let_def)

lemma store_inv_leapling_seen: "store_inv (db leapling_seen)"
  by (simp add: store_inv_def leapling_seen_def anniversary_exists_def utcfromtimestamp_leapling
      replace_year_def days_in_month_def is_leap_def)

text \<open>
  C10. Take a store the program has built (\<open>store_inv\<close>), a record in it whose creation
  date is 29 February, a post by the account of that record, and a clock reading in a
  year that is not a leap year. Then the year replacement raises \<^verbatim>\<open>ValueError\<close>, and
  both \<^verbatim>\<open>post_if_cakeday\<close> and \<^verbatim>\<open>post_if_response_to_cakeday_wish\<close> stop with that error,
  leaving the state as it was: neither returns.
\<close>

theorem leap_day_account_raises:
  assumes "store_inv (db w)"
    and "author post = Some u"
    and "map_of (db w) (name u) = Some st"
    and "s_created_utc st = created_utc u"
    and "utcfromtimestamp (s_created_utc st) = Inr cakeday"
    and "month cakeday = 2" and "day cakeday = 29"
    and "\<not> is_leap (year tnow)"
  shows "\<exists>msg. replace_year cakeday (year tnow) = Inl (ValueError msg)
    \<and> post_if_cakeday e post tnow w = (Inl (ValueError msg), w)
    \<and> post_if_response_to_cakeday_wish e post tnow w = (Inl (ValueError msg), w)"
proof -
  obtain msg where r: "replace_year cakeday (year tnow) = Inl (ValueError msg)"
    using replace_year_leap_day [OF assms(6,7,8)] by blast
  have g: "get_cakeday_status (author post) (db w) = (Inr st, db w)"
    using assms(2,3,4) by (simp add: get_cakeday_status_same)
  have not_wished: "year tnow \<notin> set (years_wished_cakeday st)"
  proof
    assume "year tnow \<in> set (years_wished_cakeday st)"
    then have "anniversary_exists st (year tnow)"
      using store_inv_lookup [OF assms(1,3)] by blast
    with assms(5) r show False by (simp add: anniversary_exists_def)
  qed
  have other_year: "year cakeday \<noteq> year tnow"
    using leap_day_year [OF assms(5,6,7)] assms(8) by auto
  have one: "post_if_cakeday e post tnow w = (Inl (ValueError msg), w)"
    using g not_wished assms(5) other_year r by (simp add: post_if_cakeday_def)
  have two: "post_if_response_to_cakeday_wish e post tnow w = (Inl (ValueError msg), w)"
    using g assms(5) r by (simp add: post_if_response_to_cakeday_wish_def)
  from r one two show ?thesis by blast
qed

theorem leap_day_account_raises_witness:
  "post_if_cakeday sample_env leapling_post now_2023_02_28 leapling_seen =
     (Inl (ValueError ''day is out of range for month''), leapling_seen)
   \<and> post_if_response_to_cakeday_wish sample_env leapling_post now_2023_02_28 leapling_seen =
     (Inl (ValueError ''day is out of range for month''), leapling_seen)"
proof -
  let ?st = "\<lparr>s_created_utc = 1456704000, years_wished_cakeday = [2020]\<rparr>"
  let ?cakeday = "\<lparr>year = 2016, month = 2, day = 29, hour = 0, minute = 0, second = 0\<rparr>"
  have a: "author leapling_post = Some leapling" by (simp add: leapling_post_def)
  have m: "map_of (db leapling_seen) (name leapling) = Some ?st"
    by (simp add: leapling_seen_def leapling_def)
  have s: "s_created_utc ?st = created_utc leapling" by (simp add: leapling_def)
  have c: "utcfromtimestamp (s_created_utc ?st) = Inr ?cakeday"
    by (simp add: utcfromtimestamp_leapling)
  have mo: "month ?cakeday = 2" and da: "day ?cakeday = 29" by simp_all
  have l: "\<not> is_leap (year now_2023_02_28)" by (simp add: is_leap_def now_2023_02_28_def)
  have r: "replace_year ?cakeday (year now_2023_02_28) =
      Inl (ValueError ''day is out of range for month'')"
    by (simp add: replace_year_def days_in_month_def is_leap_def now_2023_02_28_def)
  from leap_day_account_raises [OF store_inv_leapling_seen a m s c mo da l, of sample_env] r
  show ?thesis by auto
qed

subsection \<open>The purge: \<^verbatim>\<open>remove_old_cakedays\<close>\<close>

lemma collect_old_converts:
  assumes "\<forall>(k, v) \<in> set items. \<exists>dm. created_dm v = Inr dm"
  shows "collect_old today_dm items to_remove =
    Inr (to_remove @ map fst (filter (\<lambda>(k, v). created_dm v \<noteq> Inr today_dm) items))"
  using assms
proof (induction items arbitrary: to_remove)
  case Nil
  then show ?case by simp
next
  case (Cons item items)
  obtain k v where item: "item = (k, v)" by (cases item)
  with Cons.prems obtain dm where dm: "created_dm v = Inr dm" by auto
  from Cons.prems have rest: "\<forall>(k, v) \<in> set items. \<exists>dm. created_dm v = Inr dm" by simp
  show ?case using item dm Cons.IH [OF rest] by simp
qed

lemma delete_keys_present:
  assumes "distinct ks" and "set ks \<subseteq> fst ` set d"
  shows "delete_keys ks d = (Inr (), filter (\<lambda>(k, v). k \<notin> set ks) d)"
  using assms
proof (induction ks arbitrary: d)
  case Nil
  then show ?case by simp
next
  case (Cons k ks)
  from Cons.prems have "k \<in> fst ` set d" by simp
  then obtain v where v: "map_of d k = Some v"
    by (metis domIff dom_map_of_conv_image_fst not_Some_eq)
  have del: "AList.delete k d = filter (\<lambda>(k', v). k' \<noteq> k) d"
    by (auto simp: AList.delete_eq intro: filter_cong)
  from Cons.prems have dist: "distinct ks" and notin: "k \<notin> set ks" by simp_all
  have "set ks \<subseteq> fst ` set (AList.delete k d)"
  proof
    fix x assume x: "x \<in> set ks"
    with Cons.prems obtain b where "(x, b) \<in> set d" by auto
    moreover from x notin have "x \<noteq> k" by auto
    ultimately have "(x, b) \<in> set (AList.delete k d)" by (simp add: del)
    then show "x \<in> fst ` set (AList.delete k d)" by force
  qed
  with dist have "distinct ks" and "set ks \<subseteq> fst ` set (AList.delete k d)" by simp_all
  from Cons.IH [OF this] v show ?case
    by (auto simp: del intro: filter_cong)
qed

lemma map_of_filter_distinct:
  assumes "distinct (map fst d)"
  shows "map_of (filter (\<lambda>(k, v). P v) d) k =
    (case map_of d k of None \<Rightarrow> None | Some v \<Rightarrow> if P v then Some v else None)"
  using assms
proof (induction d)
  case Nil
  then show ?case by simp
next
  case (Cons item d)
  obtain k' v' where item: "item = (k', v')" by (cases item)
  with Cons.prems have "map_of d k' = None"
    by (simp add: map_of_eq_None_iff)
  with Cons item show ?case by auto
qed

text \<open>
  C4. For a store with one record for each name, whose stored creation times all
  convert to a date, \<^verbatim>\<open>remove_old_cakedays\<close> returns and leaves exactly the records
  whose creation day and month are the day and month of \<open>tnow\<close>, in their order: a
  name is still stored afterwards, with its record unchanged, exactly when its record's
  day and month match, and every other record is deleted.
\<close>

theorem remove_old_cakedays_exact:
  assumes "distinct (map fst d)"
    and "\<forall>(k, v) \<in> set d. \<exists>dm. created_dm v = Inr dm"
  shows "remove_old_cakedays tnow d =
      (Inr (), filter (\<lambda>(k, v). created_dm v = Inr (day tnow, month tnow)) d)
    \<and> map_of (snd (remove_old_cakedays tnow d)) k =
      (case map_of d k of
         None \<Rightarrow> None
       | Some v \<Rightarrow> if created_dm v = Inr (day tnow, month tnow) then Some v else None)"
proof -
  let ?today = "(day tnow, month tnow)"
  let ?ks = "map fst (filter (\<lambda>(k, v). created_dm v \<noteq> Inr ?today) d)"
  have c: "collect_old ?today d [] = Inr ?ks"
    using collect_old_converts [OF assms(2), of ?today "[]"] by simp
  have dist: "distinct ?ks" using assms(1) by (rule distinct_map_filter)
  have sub: "set ?ks \<subseteq> fst ` set d" by auto
  have same: "filter (\<lambda>(k, v). k \<notin> set ?ks) d = filter (\<lambda>(k, v). created_dm v = Inr ?today) d"
  proof (rule filter_cong [OF refl])
    fix x assume x: "x \<in> set d"
    obtain k v where kv: "x = (k, v)" by (cases x)
    have "k \<in> set ?ks \<longleftrightarrow> created_dm v \<noteq> Inr ?today"
    proof
      assume "k \<in> set ?ks"
      then obtain v' where "(k, v') \<in> set d" and ne: "created_dm v' \<noteq> Inr ?today" by auto
      with x kv assms(1) have "v' = v" by (meson eq_key_imp_eq_value)
      with ne show "created_dm v \<noteq> Inr ?today" by simp
    next
      assume "created_dm v \<noteq> Inr ?today"
      with x kv show "k \<in> set ?ks" by force
    qed
    with kv show "(case x of (k, v) \<Rightarrow> k \<notin> set ?ks)
        = (case x of (k, v) \<Rightarrow> created_dm v = Inr ?today)" by simp
  qed
  have one: "remove_old_cakedays tnow d =
      (Inr (), filter (\<lambda>(k, v). created_dm v = Inr ?today) d)"
    using c delete_keys_present [OF dist sub] same
    by (simp add: remove_old_cakedays_def)
  then show ?thesis
    using map_of_filter_distinct [OF assms(1), of "\<lambda>v. created_dm v = Inr ?today" k]
    by simp
qed

lemma created_dm_march_store:
  "created_dm \<lparr>s_created_utc = 1426327200, years_wished_cakeday = ys\<rparr> = Inr (14, 3)"
  "created_dm \<lparr>s_created_utc = 1520985600, years_wished_cakeday = ys\<rparr> = Inr (14, 3)"
  "created_dm \<lparr>s_created_utc = 1553040000, years_wished_cakeday = ys\<rparr> = Inr (20, 3)"
  by (simp_all add: created_dm_def utcfromtimestamp_def ord2ymd_def days_before_month_def
      days_in_month_def is_leap_def Let_def)

theorem remove_old_cakedays_exact_witness:
  "remove_old_cakedays now_2024_03_14 march_store =
     (Inr (),
      [(''alice'', \<lparr>s_created_utc = 1426327200, years_wished_cakeday = [2024]\<rparr>),
       (''bob'', \<lparr>s_created_utc = 1520985600, years_wished_cakeday = []\<rparr>)])
   \<and> map_of (snd (remove_old_cakedays now_2024_03_14 march_store)) ''carol'' = None"
proof -
  have d: "distinct (map fst march_store)" by (simp add: march_store_def)
  have c: "\<forall>(k, v) \<in> set march_store. \<exists>dm. created_dm v = Inr dm"
    by (simp add: march_store_def created_dm_march_store)
  from remove_old_cakedays_exact [OF d c, of now_2024_03_14 "''carol''"]
  show ?thesis
    by (simp add: march_store_def created_dm_march_store now_2024_03_14_def)
qed

subsection \<open>The stream merger: \<^verbatim>\<open>submissions_and_comments\<close>\<close>

lemma submissions_and_comments_sample:
  "submissions_and_comments [alice_post] [bot_wish, alice_thanks] =
     [alice_thanks, bot_wish, alice_post]"
  by (simp add: submissions_and_comments_def alice_post_def bot_wish_def alice_thanks_def)

text \<open>
  C9. The batch of \<^verbatim>\<open>submissions_and_comments\<close> holds the items of the concatenation
  of the submissions and the comments, each as often as there; it is in descending
  order of \<^verbatim>\<open>created_utc\<close>; items of equal \<^verbatim>\<open>created_utc\<close> keep the order they have in
  the concatenation (so the batch is that concatenation, sorted); and every item has a
  \<^verbatim>\<open>created_utc\<close> at least that of every later item.
\<close>

theorem submissions_and_comments_sorted:
  "mset (submissions_and_comments new comments) = mset (new @ comments)
   \<and> sorted_wrt (\<lambda>a b. post_created_utc b \<le> post_created_utc a)
        (submissions_and_comments new comments)
   \<and> filter (\<lambda>post. post_created_utc post = t) (submissions_and_comments new comments)
       = filter (\<lambda>post. post_created_utc post = t) (new @ comments)
   \<and> (i < j \<and> j < length (submissions_and_comments new comments) \<longrightarrow>
        post_created_utc (submissions_and_comments new comments ! j)
          \<le> post_created_utc (submissions_and_comments new comments ! i))"
proof -
  let ?r = "submissions_and_comments new comments"
  let ?key = "\<lambda>post. - post_created_utc post"
  have r: "?r = sort_key ?key (new @ comments)"
    by (simp add: submissions_and_comments_def)
  have perm: "mset ?r = mset (new @ comments)" unfolding r by simp
  have "sorted (map ?key ?r)" unfolding r by (rule sorted_sort_key)
  then have desc: "sorted_wrt (\<lambda>a b. post_created_utc b \<le> post_created_utc a) ?r"
    by (simp add: sorted_map)
  have "filter (\<lambda>post. ?key post = - t) ?r = filter (\<lambda>post. ?key post = - t) (new @ comments)"
    unfolding r by (rule sort_key_stable)
  then have stable: "filter (\<lambda>post. post_created_utc post = t) ?r
       = filter (\<lambda>post. post_created_utc post = t) (new @ comments)"
    by simp
  have later: "i < j \<and> j < length ?r \<longrightarrow>
      post_created_utc (?r ! j) \<le> post_created_utc (?r ! i)"
    using desc by (auto simp: sorted_wrt_iff_nth_less)
  from perm desc stable later show ?thesis by blast
qed

theorem submissions_and_comments_sorted_witness:
  "submissions_and_comments [alice_post] [bot_wish, alice_thanks] =
     [alice_thanks, bot_wish, alice_post]
   \<and> post_created_utc (submissions_and_comments [alice_post] [bot_wish, alice_thanks] ! 2)
       \<le> post_created_utc (submissions_and_comments [alice_post] [bot_wish, alice_thanks] ! 0)"
proof -
  have "(0::nat) < 2 \<and> 2 < length (submissions_and_comments [alice_post] [bot_wish, alice_thanks])"
    by (simp add: submissions_and_comments_sample)
  with submissions_and_comments_sorted [of "[alice_post]" "[bot_wish, alice_thanks]" 0 0 2]
  have "post_created_utc (submissions_and_comments [alice_post] [bot_wish, alice_thanks] ! 2)
       \<le> post_created_utc (submissions_and_comments [alice_post] [bot_wish, alice_thanks] ! 0)"
    by blast
  with submissions_and_comments_sample show ?thesis by blast
qed

subsection \<open>The worker loop: the sleep before midnight\<close>

lemma slept_post_if_cakeday: "slept (snd (post_if_cakeday e post tnow w)) = slept w"
  by (auto simp: post_if_cakeday_def Let_def split: prod.splits sum.splits option.splits)

lemma slept_post_if_response_to_cakeday_wish:
  "slept (snd (post_if_response_to_cakeday_wish e post tnow w)) = slept w"
  by (auto simp: post_if_response_to_cakeday_wish_def Let_def split: prod.splits sum.splits)

lemma slept_run_step:
  "slept (snd (run_step e tnow item w)) =
     (if hour tnow = 23 \<and> minute tnow > 45 then slept w @ [60 * 20] else slept w)"
proof -
  define w1 where "w1 = (if hour tnow = 23 \<and> minute tnow > 45
                then w\<lparr>slept := slept w @ [60 * 20]\<rparr> else w)"
  have w1: "slept w1 = (if hour tnow = 23 \<and> minute tnow > 45 then slept w @ [60 * 20] else slept w)"
    by (simp add: w1_def)
  have two: "slept (snd (post_if_response_to_cakeday_wish e post tnow
      (snd (post_if_cakeday e post tnow w1)))) = slept w1" for post
    by (simp add: slept_post_if_response_to_cakeday_wish slept_post_if_cakeday)
  have one: "slept (snd (post_if_cakeday e post tnow w1)) = slept w1" for post
    by (rule slept_post_if_cakeday)
  have "slept (snd (run_step e tnow item w)) = slept w1"
    unfolding run_step_def Let_def w1_def [symmetric]
    using one two
    by (auto split: option.splits sum.splits prod.splits simp: prod_eq_iff)
  with w1 show ?thesis by simp
qed

text \<open>
  C7, as the code has it. In one pass of the loop, for any item, the loop sleeps once,
  for 1200 seconds, when the hour of \<open>tnow\<close> is 23 and its minute is 46 or more, and
  does not sleep otherwise. For a clock reading that is a valid time, that is from
  23:46:00 on: from 23:45:00 to 23:45:59 the loop does not sleep.
\<close>

theorem run_step_sleeps:
  "slept (snd (run_step e tnow item w)) =
     (if hour tnow = 23 \<and> 46 \<le> minute tnow then slept w @ [1200] else slept w)
   \<and> (valid_datetime tnow \<longrightarrow>
        (slept (snd (run_step e tnow item w)) = slept w @ [1200])
          = (23 * 3600 + 46 * 60 \<le> hour tnow * 3600 + minute tnow * 60 + second tnow))"
proof -
  have one: "slept (snd (run_step e tnow item w)) =
     (if hour tnow = 23 \<and> 46 \<le> minute tnow then slept w @ [1200] else slept w)"
    by (simp add: slept_run_step)
  have "(hour tnow = 23 \<and> 46 \<le> minute tnow)
      = (23 * 3600 + 46 * 60 \<le> hour tnow * 3600 + minute tnow * 60 + second tnow)"
    if "valid_datetime tnow"
    using that unfolding valid_datetime_def by linarith
  with one show ?thesis by auto
qed

theorem run_step_sleeps_witness:
  "slept (snd (run_step sample_env
      \<lparr>year = 2024, month = 3, day = 14, hour = 23, minute = 46, second = 0\<rparr> None world0)) = [1200]
   \<and> slept (snd (run_step sample_env
      \<lparr>year = 2024, month = 3, day = 14, hour = 22, minute = 50, second = 0\<rparr> None world0)) = []"
  using run_step_sleeps [of sample_env
      "\<lparr>year = 2024, month = 3, day = 14, hour = 23, minute = 46, second = 0\<rparr>" None world0]
    run_step_sleeps [of sample_env
      "\<lparr>year = 2024, month = 3, day = 14, hour = 22, minute = 50, second = 0\<rparr>" None world0]
  by (simp add: world0_def)

text \<open>
  At 23:45:30, a valid time within the last fifteen minutes before midnight, the loop
  does not sleep.
\<close>

theorem run_step_sleeps_counterexample:
  "valid_datetime now_23_45_30
   \<and> 23 * 3600 + 45 * 60 \<le> hour now_23_45_30 * 3600 + minute now_23_45_30 * 60 + second now_23_45_30
   \<and> slept (snd (run_step sample_env now_23_45_30 None world0)) = slept world0"
  by (simp add: run_step_def world0_def now_23_45_30_def valid_datetime_def days_in_month_def)

subsection \<open>The recovery wrapper: \<^verbatim>\<open>run_with_exception_handling\<close>\<close>

lemma slept_retries: "Slept n \<in> set (retries frames errs) \<Longrightarrow> n = 60"
  by (induction errs arbitrary: frames) auto

lemma count_slept_retries:
  "length (filter (\<lambda>ev. ev = Slept 60) (retries frames errs)) = length errs"
  by (induction errs arbitrary: frames) simp_all

lemma run_called_retries:
  "Run_called k \<in> set (retries frames errs) \<longleftrightarrow> (\<exists>i < length errs. k = frames + 2 * i + 3)"
proof (induction errs arbitrary: frames)
  case Nil
  show ?case by simp
next
  case (Cons err errs)
  have "Run_called k \<in> set (retries frames (err # errs))
      \<longleftrightarrow> k = frames + 3 \<or> Run_called k \<in> set (retries (frames + 2) errs)"
    by simp
  also have "\<dots> \<longleftrightarrow> k = frames + 3 \<or> (\<exists>i < length errs. k = frames + 2 + 2 * i + 3)"
    by (simp only: Cons.IH)
  also have "\<dots> \<longleftrightarrow> (\<exists>i < length (err # errs). k = frames + 2 * i + 3)"
  proof
    assume "k = frames + 3 \<or> (\<exists>i < length errs. k = frames + 2 + 2 * i + 3)"
    then show "\<exists>i < length (err # errs). k = frames + 2 * i + 3"
    proof
      assume "k = frames + 3"
      then have "0 < length (err # errs) \<and> k = frames + 2 * 0 + 3" by simp
      then show ?thesis by blast
    next
      assume "\<exists>i < length errs. k = frames + 2 + 2 * i + 3"
      then obtain i where "i < length errs" and "k = frames + 2 + 2 * i + 3" by blast
      then have "Suc i < length (err # errs) \<and> k = frames + 2 * Suc i + 3" by simp
      then show ?thesis by blast
    qed
  next
    assume "\<exists>i < length (err # errs). k = frames + 2 * i + 3"
    then obtain i where i: "i < length (err # errs)" and k: "k = frames + 2 * i + 3" by blast
    show "k = frames + 3 \<or> (\<exists>i < length errs. k = frames + 2 + 2 * i + 3)"
    proof (cases i)
      case 0
      with k show ?thesis by simp
    next
      case (Suc j)
      with i k have "j < length errs \<and> k = frames + 2 + 2 * j + 3" by simp
      then show ?thesis by blast
    qed
  qed
  finally show ?case .
qed

lemma call_fits:
  "frames + 3 \<le> limit \<Longrightarrow>
   run_with_exception_handling limit frames results =
     logger_catch (undecorated limit (frames + 2) results)"
  by simp

lemma call_short:
  "frames + 1 \<le> limit \<Longrightarrow> limit < frames + 3 \<Longrightarrow>
   run_with_exception_handling limit frames results = (Returned, [Caught RecursionError])"
  by (simp add: logger_catch_def)

declare run_with_exception_handling.simps [simp del]

lemma call_caught:
  assumes "frames + 1 \<le> limit"
  shows "\<exists>out. run_with_exception_handling limit frames results = logger_catch out"
proof (cases "limit < frames + 3")
  case True
  have "logger_catch (Raised RecursionError, []) = (Returned, [Caught RecursionError])"
    by (simp add: logger_catch_def)
  with call_short [OF assms True, of results] show ?thesis by metis
next
  case False
  then have "frames + 3 \<le> limit" by simp
  from call_fits [OF this, of results] show ?thesis by blast
qed

lemma logger_catch_prepend:
  "logger_catch (case logger_catch out of (r, events) \<Rightarrow> (r, pre @ events))
     = (case logger_catch out of (r, events) \<Rightarrow> (r, pre @ events))"
  by (cases out; cases "fst out") (auto simp: logger_catch_def)

lemma wrapper_failures:
  assumes "KeyboardInterrupt \<notin> set errs" and "frames + 2 * length errs + 1 \<le> limit"
  shows "run_with_exception_handling limit frames (map Raises errs @ rest) =
    (case run_with_exception_handling limit (frames + 2 * length errs) rest of
       (r, events) \<Rightarrow> (r, retries frames errs @ events))"
  using assms
proof (induction errs arbitrary: frames)
  case Nil
  show ?case by (simp only: list.map append_Nil retries.simps list.size) (simp split: prod.splits)
next
  case (Cons err errs)
  from Cons.prems have ne: "err \<noteq> KeyboardInterrupt" and rest: "KeyboardInterrupt \<notin> set errs"
    by auto
  from Cons.prems have fits: "frames + 3 \<le> limit"
    and inner: "frames + 2 + 2 * length errs + 1 \<le> limit" by simp_all
  obtain out where out: "run_with_exception_handling limit (frames + 2 + 2 * length errs) rest
      = logger_catch out"
    using call_caught [OF inner] by blast
  have "run_with_exception_handling limit frames (map Raises (err # errs) @ rest) =
      logger_catch (undecorated limit (frames + 2) (Raises err # (map Raises errs @ rest)))"
    using call_fits [OF fits] by simp
  also have "\<dots> = logger_catch
      (case run_with_exception_handling limit (frames + 2) (map Raises errs @ rest) of
         (r, events) \<Rightarrow> (r, [Run_called (frames + 3), Warned err, Slept 60] @ events))"
  proof -
    have e: "frames + 2 + 1 = frames + 3" by simp
    show ?thesis using ne unfolding undecorated.simps e by simp
  qed
  also have "\<dots> = logger_catch
      (case logger_catch out of
         (r, events) \<Rightarrow> (r, ([Run_called (frames + 3), Warned err, Slept 60]
            @ retries (frames + 2) errs) @ events))"
    unfolding Cons.IH [OF rest inner] out by (simp split: prod.splits)
  also have "\<dots> = (case logger_catch out of
         (r, events) \<Rightarrow> (r, ([Run_called (frames + 3), Warned err, Slept 60]
            @ retries (frames + 2) errs) @ events))"
    by (rule logger_catch_prepend)
  also have "\<dots> = (case run_with_exception_handling limit (frames + 2 * length (err # errs)) rest of
       (r, events) \<Rightarrow> (r, retries frames (err # errs) @ events))"
    using out by (simp add: add.commute add.left_commute)
  finally show ?case .
qed

lemma still_running:
  assumes "frames + 3 \<le> limit"
  shows "run_with_exception_handling limit frames [] = (Running, [Run_called (frames + 3)])"
proof -
  have e: "frames + 2 + 1 = frames + 3" by simp
  show ?thesis
    unfolding call_fits [OF assms] undecorated.simps e by (simp add: logger_catch_def)
qed

lemma interrupted:
  assumes "frames + 3 \<le> limit"
  shows "run_with_exception_handling limit frames (Raises KeyboardInterrupt # rest) =
    (Raised KeyboardInterrupt, [Run_called (frames + 3)])"
proof -
  have e: "frames + 2 + 1 = frames + 3" by simp
  show ?thesis
    unfolding call_fits [OF assms] undecorated.simps e by (simp add: logger_catch_def)
qed

text \<open>
  C8, as the code has it. Let the worker loop fail some number of times with errors
  other than \<^verbatim>\<open>KeyboardInterrupt\<close>. As long as the frames of the restarts fit under the
  recursion limit, the wrapper logs a warning with each failure, sleeps 60 seconds,
  always 60, and starts the worker loop again, and after the last failure the loop is
  running once more; a \<^verbatim>\<open>KeyboardInterrupt\<close> after the failures is raised again by the
  wrapper, with no warning, no sleep and no restart, whatever would have followed.
  Each restart is a call of the decorated wrapper from within its own handler, and its
  worker loop runs two frames deeper than the one before. So the retries are bounded:
  when the frames of the next restart no longer fit, the \<^verbatim>\<open>RecursionError\<close> is caught by
  \<^verbatim>\<open>@logger.catch\<close>, and the wrapper returns without starting the worker loop again,
  whatever would have followed.
\<close>

theorem run_with_exception_handling_restarts:
  assumes "KeyboardInterrupt \<notin> set errs"
  shows "(frames + 2 * length errs + 3 \<le> limit \<longrightarrow>
        run_with_exception_handling limit frames (map Raises errs) =
          (Running, retries frames errs @ [Run_called (frames + 2 * length errs + 3)])
        \<and> run_with_exception_handling limit frames
            (map Raises errs @ Raises KeyboardInterrupt # rest) =
          (Raised KeyboardInterrupt,
           retries frames errs @ [Run_called (frames + 2 * length errs + 3)]))
    \<and> (frames + 2 * length errs + 1 \<le> limit \<and> limit < frames + 2 * length errs + 3 \<longrightarrow>
        run_with_exception_handling limit frames (map Raises errs @ rest) =
          (Returned, retries frames errs @ [Caught RecursionError]))
    \<and> length (filter (\<lambda>ev. ev = Slept 60) (retries frames errs)) = length errs
    \<and> (Slept n \<in> set (retries frames errs) \<longrightarrow> n = 60)
    \<and> (Run_called k \<in> set (retries frames errs)
        \<longleftrightarrow> (\<exists>i < length errs. k = frames + 2 * i + 3))"
proof -
  have one: "run_with_exception_handling limit frames (map Raises errs) =
          (Running, retries frames errs @ [Run_called (frames + 2 * length errs + 3)])"
    and two: "run_with_exception_handling limit frames
            (map Raises errs @ Raises KeyboardInterrupt # rest) =
          (Raised KeyboardInterrupt,
           retries frames errs @ [Run_called (frames + 2 * length errs + 3)])"
    if fits: "frames + 2 * length errs + 3 \<le> limit"
  proof -
    from fits have enter: "frames + 2 * length errs + 1 \<le> limit" by simp
    show "run_with_exception_handling limit frames (map Raises errs) =
          (Running, retries frames errs @ [Run_called (frames + 2 * length errs + 3)])"
      using wrapper_failures [OF assms enter, of "[]"] still_running [OF fits] by simp
    show "run_with_exception_handling limit frames
            (map Raises errs @ Raises KeyboardInterrupt # rest) =
          (Raised KeyboardInterrupt,
           retries frames errs @ [Run_called (frames + 2 * length errs + 3)])"
      using wrapper_failures [OF assms enter, of "Raises KeyboardInterrupt # rest"]
        interrupted [OF fits, of rest] by simp
  qed
  have three: "run_with_exception_handling limit frames (map Raises errs @ rest) =
          (Returned, retries frames errs @ [Caught RecursionError])"
    if "frames + 2 * length errs + 1 \<le> limit \<and> limit < frames + 2 * length errs + 3"
  proof -
    from that have enter: "frames + 2 * length errs + 1 \<le> limit"
      and short: "limit < frames + 2 * length errs + 3" by simp_all
    show ?thesis
      using wrapper_failures [OF assms enter, of rest] call_short [OF enter short, of rest]
      by simp
  qed
  from one two three count_slept_retries [of frames errs] slept_retries [of n frames errs]
    run_called_retries [of k frames errs]
  show ?thesis by blast
qed

theorem run_with_exception_handling_restarts_witness:
  "run_with_exception_handling 1000 3
     [Raises (OtherException ''timeout''), Raises AssertionError] =
     (Running,
      [Run_called 6, Warned (OtherException ''timeout''), Slept 60,
       Run_called 8, Warned AssertionError, Slept 60,
       Run_called 10])
   \<and> run_with_exception_handling 1000 3
     [Raises (OtherException ''timeout''), Raises AssertionError, Raises KeyboardInterrupt,
      Raises AssertionError] =
     (Raised KeyboardInterrupt,
      [Run_called 6, Warned (OtherException ''timeout''), Slept 60,
       Run_called 8, Warned AssertionError, Slept 60,
       Run_called 10])
   \<and> run_with_exception_handling 8 3
     [Raises (OtherException ''timeout''), Raises AssertionError, Returns] =
     (Returned,
      [Run_called 6, Warned (OtherException ''timeout''), Slept 60,
       Run_called 8, Warned AssertionError, Slept 60,
       Caught RecursionError])"
proof -
  have h: "KeyboardInterrupt \<notin> set [OtherException ''timeout'', AssertionError]" by simp
  from run_with_exception_handling_restarts [OF h, of 3 1000 "[Raises AssertionError]"]
  have "run_with_exception_handling 1000 3
     [Raises (OtherException ''timeout''), Raises AssertionError] =
     (Running,
      [Run_called 6, Warned (OtherException ''timeout''), Slept 60,
       Run_called 8, Warned AssertionError, Slept 60,
       Run_called 10])
   \<and> run_with_exception_handling 1000 3
     [Raises (OtherException ''timeout''), Raises AssertionError, Raises KeyboardInterrupt,
      Raises AssertionError] =
     (Raised KeyboardInterrupt,
      [Run_called 6, Warned (OtherException ''timeout''), Slept 60,
       Run_called 8, Warned AssertionError, Slept 60,
       Run_called 10])"
    by simp
  moreover from run_with_exception_handling_restarts [OF h, of 3 8 "[Returns]"]
  have "run_with_exception_handling 8 3
     [Raises (OtherException ''timeout''), Raises AssertionError, Returns] =
     (Returned,
      [Run_called 6, Warned (OtherException ''timeout''), Slept 60,
       Run_called 8, Warned AssertionError, Slept 60,
       Caught RecursionError])"
    by simp
  ultimately show ?thesis by blast
qed

text \<open>
  With the default limit of 1000 and three frames under the first call: after two
  failures the worker loop runs for the third time in the tenth frame, four frames
  deeper than the first time, so the restart is a recursive call and not a loop; and
  after 498 failures in a row the wrapper returns, although the next run of the
  worker loop would have gone well, so the retries are bounded.
\<close>

theorem run_with_exception_handling_restarts_counterexample:
  "run_with_exception_handling 1000 3
     [Raises (OtherException ''timeout''), Raises (OtherException ''timeout'')] =
     (Running,
      [Run_called 6, Warned (OtherException ''timeout''), Slept 60,
       Run_called 8, Warned (OtherException ''timeout''), Slept 60,
       Run_called 10])
   \<and> fst (run_with_exception_handling 1000 3
       (map Raises (replicate 498 (OtherException ''timeout'')) @ [Returns])) = Returned
   \<and> last (snd (run_with_exception_handling 1000 3
       (map Raises (replicate 498 (OtherException ''timeout'')) @ [Returns])))
       = Caught RecursionError"
proof -
  have "run_with_exception_handling 1000 3
     [Raises (OtherException ''timeout''), Raises (OtherException ''timeout'')] =
     (Running,
      [Run_called 6, Warned (OtherException ''timeout''), Slept 60,
       Run_called 8, Warned (OtherException ''timeout''), Slept 60,
       Run_called 10])"
    by (simp add: run_with_exception_handling.simps logger_catch_def)
  moreover have "run_with_exception_handling 1000 3
       (map Raises (replicate 498 (OtherException ''timeout'')) @ [Returns]) =
     (Returned, retries 3 (replicate 498 (OtherException ''timeout''))
        @ [Caught RecursionError])"
  proof -
    have k: "KeyboardInterrupt \<notin> set (replicate 498 (OtherException ''timeout''))" by simp
    have enter: "3 + 2 * length (replicate 498 (OtherException ''timeout'')) + 1 \<le> (1000::nat)"
      by simp
    have short: "(1000::nat) < 3 + 2 * length (replicate 498 (OtherException ''timeout'')) + 3"
      by simp
    show ?thesis
      using wrapper_failures [OF k enter, of "[Returns]"] call_short [OF enter short, of "[Returns]"]
      by simp
  qed
  ultimately show ?thesis by simp
qed

end
